theory Spec2Isabelle
  imports Main "HOL-Library.Multiset"
begin

section \<open>Text handling shared by the pipeline stages\<close>

text \<open>
  A Python string is a sequence of Unicode code points and is modelled as the list of
  their numbers; \<open>ascii\<close> writes a literal. The character classes are those of CPython
  with the tables of Unicode 14: white space as \<open>str.isspace\<close> and \<open>str.strip\<close> know it,
  decimal digits as the pattern \<open>\d\<close> and \<open>int\<close> know them (66 runs of ten code points,
  each run starting at its zero). \<open>str.lower\<close> is modelled on the letters A to Z: every
  other code point lowers to one or more code points none of which occurs in \<open>.jpeg\<close>, so
  the test of the extension, the only use of \<open>lower\<close>, is the same.
\<close>

datatype py_error = IndexError | KeyError | ValueError | OSError | APIError
  | CalledProcessError

type_synonym pystr = "nat list"

abbreviation ascii :: "string \<Rightarrow> pystr" where
  "ascii s \<equiv> map of_char s"

definition newline :: nat where
  "newline = 0x0A"

definition whitespace :: "nat list" where
  "whitespace =
     [0x09, 0x0A, 0x0B, 0x0C, 0x0D, 0x1C, 0x1D, 0x1E, 0x1F, 0x20, 0x85, 0xA0, 0x1680,
      0x2000, 0x2001, 0x2002, 0x2003, 0x2004, 0x2005, 0x2006, 0x2007, 0x2008, 0x2009, 0x200A,
      0x2028, 0x2029, 0x202F, 0x205F, 0x3000]"

definition isspace :: "nat \<Rightarrow> bool" where
  "isspace c = (c \<in> set whitespace)"

definition strip :: "pystr \<Rightarrow> pystr" where
  "strip s = rev (dropWhile isspace (rev (dropWhile isspace s)))"

text \<open>The code points of the digit zero of every run of decimal digits.\<close>

definition digit_zeros :: "nat list" where
  "digit_zeros =
     [0x0030, 0x0660, 0x06F0, 0x07C0, 0x0966, 0x09E6, 0x0A66, 0x0AE6, 0x0B66,
      0x0BE6, 0x0C66, 0x0CE6, 0x0D66, 0x0DE6, 0x0E50, 0x0ED0, 0x0F20, 0x1040,
      0x1090, 0x17E0, 0x1810, 0x1946, 0x19D0, 0x1A80, 0x1A90, 0x1B50, 0x1BB0,
      0x1C40, 0x1C50, 0xA620, 0xA8D0, 0xA900, 0xA9D0, 0xA9F0, 0xAA50, 0xABF0,
      0xFF10, 0x104A0, 0x10D30, 0x11066, 0x110F0, 0x11136, 0x111D0, 0x112F0, 0x11450,
      0x114D0, 0x11650, 0x116C0, 0x11730, 0x118E0, 0x11950, 0x11C50, 0x11D50, 0x11DA0,
      0x16A60, 0x16AC0, 0x16B50, 0x1D7CE, 0x1D7D8, 0x1D7E2, 0x1D7EC, 0x1D7F6, 0x1E140,
      0x1E2F0, 0x1E950, 0x1FBF0]"

definition decimal_zero :: "nat \<Rightarrow> nat option" where
  "decimal_zero c = find (\<lambda>z. z \<le> c \<and> c < z + 10) digit_zeros"

definition isdigit :: "nat \<Rightarrow> bool" where
  "isdigit c = (decimal_zero c \<noteq> None)"

definition digit_val :: "nat \<Rightarrow> nat" where
  "digit_val c = (case decimal_zero c of None \<Rightarrow> 0 | Some z \<Rightarrow> c - z)"

definition lower_char :: "nat \<Rightarrow> nat" where
  "lower_char c = (if 65 \<le> c \<and> c \<le> 90 then c + 32 else c)"

definition lower :: "pystr \<Rightarrow> pystr" where
  "lower s = map lower_char s"

definition startswith :: "pystr \<Rightarrow> pystr \<Rightarrow> bool" where
  "startswith s p = (take (length p) s = p)"

definition endswith :: "pystr \<Rightarrow> pystr \<Rightarrow> bool" where
  "endswith s p = (length p \<le> length s \<and> drop (length s - length p) s = p)"

text \<open>The substring test \<open>p in s\<close>.\<close>

fun contains :: "pystr \<Rightarrow> pystr \<Rightarrow> bool" where
  "contains [] p = (p = [])"
| "contains (c # s) p = (startswith (c # s) p \<or> contains s p)"

text \<open>Decimal rendering of a non-negative integer, as \<open>str\<close> and f-strings give it.\<close>

definition digit_char :: "nat \<Rightarrow> nat" where
  "digit_char d = 48 + d"

fun str_nat :: "nat \<Rightarrow> pystr" where
  "str_nat n = (if n < 10 then [digit_char n] else str_nat (n div 10) @ [digit_char (n mod 10)])"

declare str_nat.simps [simp del]

text \<open>\<open>int\<close> on a run of decimal digits: the value, and \<open>ValueError\<close> when the run is
  longer than the limit of the interpreter on the digits of an integer string.\<close>

definition int_of_digits :: "pystr \<Rightarrow> nat" where
  "int_of_digits s = foldl (\<lambda>acc c. 10 * acc + digit_val c) 0 s"

definition int_max_str_digits :: nat where
  "int_max_str_digits = 4300"

definition py_int :: "pystr \<Rightarrow> py_error + nat" where
  "py_int s = (if length s > int_max_str_digits then Inl ValueError else Inr (int_of_digits s))"

text \<open>\<open>sep.join(xs)\<close>.\<close>

fun py_join :: "pystr \<Rightarrow> pystr list \<Rightarrow> pystr" where
  "py_join sep [] = []"
| "py_join sep [x] = x"
| "py_join sep (x # y # ys) = x @ sep @ py_join sep (y # ys)"

section \<open>Documents\<close>

text \<open>
  A layout carries the indices of the placeholders that a new slide clones from it.
  A slide knows the layout it was instantiated from, its placeholders and its
  speaker-notes text (\<open>None\<close> while the slide has no notes slide). The text of a
  placeholder or of a notes frame is the text that reading it gives.
\<close>

record layout =
  layout_name :: pystr
  layout_placeholders :: "nat list"

record placeholder =
  ph_idx :: nat
  ph_text :: pystr

record slide =
  slide_layout :: layout
  placeholders :: "placeholder list"
  notes_text :: "pystr option"

record presentation =
  slide_masters :: "layout list list"
  slides :: "slide list"

text \<open>
  Assigning a text to a placeholder or to a notes frame goes through the document
  library, which writes every control character other than tab, line feed and vertical
  tab as \<open>_xHHHH_\<close> (four upper-case hexadecimal digits); line feeds separate paragraphs
  and vertical tabs are line breaks, and reading gives both back. \<open>stored_text t\<close> is the
  text read after \<open>t\<close> was assigned.
\<close>

definition is_escaped :: "nat \<Rightarrow> bool" where
  "is_escaped c = (c \<le> 8 \<or> (12 \<le> c \<and> c \<le> 31))"

definition hex_digit :: "nat \<Rightarrow> nat" where
  "hex_digit d = (if d < 10 then 48 + d else 55 + d)"

definition escape_char :: "nat \<Rightarrow> pystr" where
  "escape_char c =
     (if is_escaped c
      then ascii ''_x00'' @ [hex_digit (c div 16), hex_digit (c mod 16)] @ ascii ''_''
      else [c])"

definition stored_text :: "pystr \<Rightarrow> pystr" where
  "stored_text t = concat (map escape_char t)"

text \<open>The structure object read from the JSON file.\<close>

record lecture =
  title :: pystr
  agenda :: "pystr list"
  main :: "pystr \<rightharpoonup> pystr list"

section \<open>Deck builder: \<open>generate_slides.py\<close>\<close>

definition new_slide :: "layout \<Rightarrow> slide" where
  "new_slide l =
     \<lparr>slide_layout = l,
      placeholders = map (\<lambda>i. \<lparr>ph_idx = i, ph_text = []\<rparr>) (layout_placeholders l),
      notes_text = None\<rparr>"

definition add_slide :: "presentation \<Rightarrow> slide \<Rightarrow> presentation" where
  "add_slide prs s = prs\<lparr>slides := slides prs @ [s]\<rparr>"

text \<open>The placeholder loop of the title slide: slot 13 receives the text.\<close>

definition fill_title :: "pystr \<Rightarrow> slide \<Rightarrow> slide" where
  "fill_title t s =
     s\<lparr>placeholders :=
        map (\<lambda>p. if ph_idx p = 13 then p\<lparr>ph_text := stored_text t\<rparr> else p)
          (placeholders s)\<rparr>"

text \<open>The placeholder loop of the agenda and content slides: slot 13 is the header,
  slot 14 the body.\<close>

definition fill_header_body :: "pystr \<Rightarrow> pystr \<Rightarrow> slide \<Rightarrow> slide" where
  "fill_header_body h b s =
     s\<lparr>placeholders :=
        map (\<lambda>p. if ph_idx p = 13 then p\<lparr>ph_text := stored_text h\<rparr>
                 else if ph_idx p = 14 then p\<lparr>ph_text := stored_text b\<rparr> else p)
          (placeholders s)\<rparr>"

text \<open>The literal header of the agenda slide (five katakana).\<close>

definition agenda_header :: pystr where
  "agenda_header = [0x30A2, 0x30B8, 0x30A7, 0x30F3, 0x30C0]"

text \<open>One line \<open>"<i+1>. <item>"\<close> of the numbered lists.\<close>

definition numbered :: "nat \<Rightarrow> pystr \<Rightarrow> pystr" where
  "numbered i item = str_nat (i + 1) @ ascii ''. '' @ item"

definition agenda_text :: "pystr list \<Rightarrow> pystr" where
  "agenda_text ag = py_join [newline] (map (\<lambda>(i, item). numbered i item) (enumerate 0 ag))"

text \<open>The inner loop: one content slide per slide body of an agenda item.\<close>

fun add_content_slides :: "layout \<Rightarrow> pystr \<Rightarrow> presentation \<Rightarrow> pystr list \<Rightarrow> presentation" where
  "add_content_slides l header prs [] = prs"
| "add_content_slides l header prs (slide_content # rest) =
     add_content_slides l header
       (add_slide prs (fill_header_body header slide_content (new_slide l))) rest"

text \<open>The outer loop over \<open>enumerate(content['agenda'])\<close>; an agenda title that is not a
  key of \<open>main\<close> is passed over.\<close>

fun add_agenda_slides ::
  "layout \<Rightarrow> (pystr \<rightharpoonup> pystr list) \<Rightarrow> presentation \<Rightarrow> (nat \<times> pystr) list \<Rightarrow> presentation" where
  "add_agenda_slides l m prs [] = prs"
| "add_agenda_slides l m prs ((agenda_idx, agenda_title) # rest) =
     (case m agenda_title of
        None \<Rightarrow> add_agenda_slides l m prs rest
      | Some slides_content \<Rightarrow>
          add_agenda_slides l m
            (add_content_slides l (numbered agenda_idx agenda_title) prs slides_content) rest)"

text \<open>
  \<open>create_slides_from_json\<close>, from the loaded template and the loaded structure object
  to the presentation that is saved. Indexing the masters or the layouts out of range
  raises \<open>IndexError\<close>.
\<close>

definition create_slides_from_json :: "presentation \<Rightarrow> lecture \<Rightarrow> py_error + presentation" where
  "create_slides_from_json prs content =
     (case slide_masters prs of
        [] \<Rightarrow> Inl IndexError
      | master # _ \<Rightarrow>
          if length master < 3 then Inl IndexError
          else
            let main_template = master ! 0;
                start_template = master ! 1;
                end_template = master ! 2;
                prs1 = add_slide prs (fill_title (title content) (new_slide start_template));
                prs2 = add_slide prs1
                  (fill_header_body agenda_header (agenda_text (agenda content))
                     (new_slide main_template));
                prs3 = add_agenda_slides main_template (main content) prs2
                  (enumerate 0 (agenda content));
                prs4 = add_slide prs3 (new_slide end_template)
            in Inr prs4)"

text \<open>The slides that the loops append, as a list.\<close>

definition content_slide :: "layout \<Rightarrow> nat \<Rightarrow> pystr \<Rightarrow> pystr \<Rightarrow> slide" where
  "content_slide l i a b = fill_header_body (numbered i a) b (new_slide l)"

definition item_slides :: "layout \<Rightarrow> (pystr \<rightharpoonup> pystr list) \<Rightarrow> nat \<times> pystr \<Rightarrow> slide list" where
  "item_slides l m e =
     (case m (snd e) of None \<Rightarrow> [] | Some bs \<Rightarrow> map (content_slide l (fst e) (snd e)) bs)"

text \<open>A template with three layouts that can be told apart, and a structure object whose
  second agenda entry is not a key of \<open>main\<close>.\<close>

definition example_layouts :: "layout list" where
  "example_layouts =
     [\<lparr>layout_name = ascii ''L0'', layout_placeholders = [13, 14]\<rparr>,
      \<lparr>layout_name = ascii ''L1'', layout_placeholders = [13]\<rparr>,
      \<lparr>layout_name = ascii ''L2'', layout_placeholders = []\<rparr>]"

definition example_template :: presentation where
  "example_template = \<lparr>slide_masters = [example_layouts], slides = []\<rparr>"

definition example_lecture :: lecture where
  "example_lecture =
     \<lparr>title = ascii ''T'', agenda = [ascii ''a'', ascii ''b'', ascii ''c''],
      main = [ascii ''a'' \<mapsto> [ascii ''x'', ascii ''y''], ascii ''c'' \<mapsto> [ascii ''z'']]\<rparr>"

section \<open>Speaker notes generator: \<open>generate_speaker_notes.py\<close>\<close>

text \<open>
  The vision model is a parameter: for the image data and the slide number of a request,
  the call either raises or returns the content blocks of the reply. A block either
  carries text or is of a kind without a \<open>text\<close> attribute.
\<close>

datatype content_block = TextBlock pystr | OtherBlock

type_synonym vision_client = "pystr \<Rightarrow> nat \<Rightarrow> py_error + content_block list"

text \<open>The two Japanese fragments of the placeholder string: the word for slide, and the
  phrase saying that the script could not be generated.\<close>

definition slide_word :: pystr where
  "slide_word = [0x30B9, 0x30E9, 0x30A4, 0x30C9]"

definition could_not_generate :: pystr where
  "could_not_generate =
     [0x306E, 0x539F, 0x7A3F, 0x3092, 0x751F, 0x6210, 0x3067, 0x304D, 0x307E, 0x305B, 0x3093,
      0x3067, 0x3057, 0x305F, 0x3002]"

definition placeholder_script :: "nat \<Rightarrow> pystr" where
  "placeholder_script slide_number =
     slide_word @ ascii '' '' @ str_nat slide_number @ ascii '' '' @ could_not_generate"

text \<open>
  \<open>generate_script_from_image\<close>: the whole of the request and of the reading of the
  reply (\<open>message.content[0].text.strip()\<close>) is inside the \<open>try\<close>, so a raising call, an
  empty content list and a first block without text all end in the \<open>except\<close> branch.
\<close>

definition generate_script_from_image :: "vision_client \<Rightarrow> pystr \<Rightarrow> nat \<Rightarrow> pystr" where
  "generate_script_from_image client image_data slide_number =
     (case client image_data slide_number of
        Inl e \<Rightarrow> placeholder_script slide_number
      | Inr [] \<Rightarrow> placeholder_script slide_number
      | Inr (TextBlock t # _) \<Rightarrow> strip t
      | Inr (OtherBlock # _) \<Rightarrow> placeholder_script slide_number)"

text \<open>The text of the notes frame of a slide; asking a slide without a notes slide for
  it creates an empty one.\<close>

definition notes_frame_text :: "slide \<Rightarrow> pystr" where
  "notes_frame_text s = (case notes_text s of None \<Rightarrow> [] | Some t \<Rightarrow> t)"

text \<open>The body of the write-back loop for one slide: append after a blank line when the
  stripped text of the frame is not empty, set otherwise. Either way the new text is
  assigned to the frame, so that the text read afterwards is its stored form.\<close>

definition write_notes :: "slide \<Rightarrow> pystr \<Rightarrow> slide" where
  "write_notes s note_text =
     (if strip (notes_frame_text s) \<noteq> []
      then s\<lparr>notes_text :=
             Some (stored_text (notes_frame_text s @ [newline, newline] @ note_text))\<rparr>
      else s\<lparr>notes_text := Some (stored_text note_text)\<rparr>)"

fun add_notes_loop :: "slide list \<Rightarrow> (nat \<times> pystr) list \<Rightarrow> slide list" where
  "add_notes_loop sl [] = sl"
| "add_notes_loop sl ((i, note_text) # rest) =
     add_notes_loop
       (if i < length sl then sl[i := write_notes (sl ! i) note_text] else sl) rest"

definition add_notes_to_pptx :: "presentation \<Rightarrow> pystr list \<Rightarrow> presentation" where
  "add_notes_to_pptx prs notes_list =
     prs\<lparr>slides := add_notes_loop (slides prs) (enumerate 0 notes_list)\<rparr>"

text \<open>The per-slide loop of \<open>process_pptx_with_pdf\<close> and \<open>process_pptx\<close>: slide numbers
  count from 1.\<close>

fun script_loop :: "vision_client \<Rightarrow> (nat \<times> pystr) list \<Rightarrow> pystr list" where
  "script_loop client [] = []"
| "script_loop client ((i, image_data) # rest) =
     generate_script_from_image client image_data (i + 1) # script_loop client rest"

datatype notes_message = NotesCompleted nat | ProcessingError py_error

record notes_run =
  run_ok :: bool
  run_message :: notes_message
  run_notes :: "pystr list"
  run_output :: "presentation option"

text \<open>
  \<open>process_pptx_with_pdf\<close>. The rasterised pages of the PDF are given as the outcome of
  \<open>pdf_to_images\<close>, which raises or returns one image per page. Progress callbacks and
  printing are left out.
\<close>

definition process_pptx_with_pdf ::
  "vision_client \<Rightarrow> presentation \<Rightarrow> py_error + pystr list \<Rightarrow> notes_run" where
  "process_pptx_with_pdf client prs pdf_pages =
     (case pdf_pages of
        Inl e \<Rightarrow>
          \<lparr>run_ok = False, run_message = ProcessingError e, run_notes = [], run_output = None\<rparr>
      | Inr images \<Rightarrow>
          let notes_list = script_loop client (enumerate 0 images)
          in \<lparr>run_ok = True, run_message = NotesCompleted (length images),
              run_notes = notes_list, run_output = Some (add_notes_to_pptx prs notes_list)\<rparr>)"

text \<open>A deck of three slides: the first holds the notes \<open>A\<close>, the second notes of
  white space only (an ideographic space and a line feed), the third has no notes slide.
  A vision model that fails on the second slide only.\<close>

definition example_noted_deck :: presentation where
  "example_noted_deck =
     \<lparr>slide_masters = [example_layouts],
      slides =
        [\<lparr>slide_layout = example_layouts ! 1, placeholders = [],
          notes_text = Some (ascii ''A'')\<rparr>,
         \<lparr>slide_layout = example_layouts ! 0, placeholders = [],
          notes_text = Some [0x3000, newline]\<rparr>,
         \<lparr>slide_layout = example_layouts ! 2, placeholders = [], notes_text = None\<rparr>]\<rparr>"

definition example_client :: vision_client where
  "example_client image_data slide_number =
     (if slide_number = 2 then Inl APIError else Inr [TextBlock (ascii '' ok ''), OtherBlock])"

section \<open>Video generator: \<open>generate_video.py\<close>\<close>

text \<open>\<open>extract_speaker_notes\<close>: one entry per slide, \<open>None\<close> when the slide has no notes
  slide or its notes are empty after stripping.\<close>

definition extract_speaker_notes :: "presentation \<Rightarrow> pystr option list" where
  "extract_speaker_notes prs =
     map (\<lambda>s. case notes_text s of
                 None \<Rightarrow> None
               | Some t \<Rightarrow> if t = [] then None else if strip t = [] then None else Some (strip t))
       (slides prs)"

text \<open>
  A zip archive is the list of its entries in archive order: the name, and the image
  that the bytes decode to (\<open>None\<close> when they are no image). Only the size of an image
  matters to the encoder.
\<close>

datatype image = Image (width: nat) (height: nat)

type_synonym zip_archive = "(pystr \<times> image option) list"

definition namelist :: "zip_archive \<Rightarrow> pystr list" where
  "namelist zf = map fst zf"

text \<open>\<open>os.path.basename\<close> of a POSIX path: what follows the last slash.\<close>

definition basename :: "pystr \<Rightarrow> pystr" where
  "basename name = rev (takeWhile (\<lambda>c. c \<noteq> 0x2F) (rev name))"

text \<open>The group of \<open>re.search(r'(\d+)', s)\<close>: the first run of digits, empty when there
  is no match.\<close>

definition first_digits :: "pystr \<Rightarrow> pystr" where
  "first_digits s = takeWhile isdigit (dropWhile (\<lambda>c. \<not> isdigit c) s)"

text \<open>The scan of the entry names that collects \<open>jpeg_files\<close>; the conversion of the
  digits of a name to an integer may raise, which ends the scan.\<close>

fun scan_names :: "pystr list \<Rightarrow> py_error + (nat \<times> pystr) list" where
  "scan_names [] = Inr []"
| "scan_names (name # names) =
     (if endswith name (ascii ''/'') then scan_names names
      else if contains name (ascii ''__MACOSX'') then scan_names names
      else if startswith (basename name) (ascii ''.'') then scan_names names
      else if endswith (lower name) (ascii ''.jpeg'') \<or> endswith (lower name) (ascii ''.jpg'')
      then (if first_digits (basename name) \<noteq> []
            then (case py_int (first_digits (basename name)) of
                    Inl e \<Rightarrow> Inl e
                  | Inr num \<Rightarrow>
                      (case scan_names names of
                         Inl e \<Rightarrow> Inl e
                       | Inr rest \<Rightarrow> Inr ((num, name) # rest)))
            else scan_names names)
      else scan_names names)"

text \<open>\<open>jpeg_files\<close> after \<open>jpeg_files.sort(key=lambda x: x[0])\<close>; the sort is stable.\<close>

definition jpeg_files :: "zip_archive \<Rightarrow> py_error + (nat \<times> pystr) list" where
  "jpeg_files zf =
     (case scan_names (namelist zf) of Inl e \<Rightarrow> Inl e | Inr files \<Rightarrow> Inr (sort_key fst files))"

text \<open>Opening a name reads the last entry of that name; decoding bytes that are no
  image raises.\<close>

fun load_images :: "zip_archive \<Rightarrow> pystr list \<Rightarrow> py_error + image list" where
  "load_images zf [] = Inr []"
| "load_images zf (name # rest) =
     (case map_of (rev zf) name of
        None \<Rightarrow> Inl KeyError
      | Some None \<Rightarrow> Inl OSError
      | Some (Some img) \<Rightarrow>
          (case load_images zf rest of Inl e \<Rightarrow> Inl e | Inr imgs \<Rightarrow> Inr (img # imgs)))"

definition extract_images_from_zip :: "zip_archive \<Rightarrow> py_error + image list" where
  "extract_images_from_zip zf =
     (case jpeg_files zf of Inl e \<Rightarrow> Inl e | Inr files \<Rightarrow> load_images zf (map snd files))"

text \<open>
  The outside world of the video stage: the speech service and the two command-line
  tools. Each external call made is recorded, in order.
\<close>

datatype audio = Audio pystr

datatype ffmpeg_job = Mux "nat \<times> nat" "audio option" | Concat nat

datatype external_call = TextToSpeech pystr | Ffprobe audio | Ffmpeg ffmpeg_job

datatype clip = Clip "nat \<times> nat" "audio option"

record environment =
  tts_reply :: "pystr \<Rightarrow> py_error + audio"
  ffprobe_parses :: "audio \<Rightarrow> bool"
  ffmpeg_returncode :: "ffmpeg_job \<Rightarrow> int"

definition text_to_speech :: "environment \<Rightarrow> pystr \<Rightarrow> (py_error + audio) \<times> external_call list" where
  "text_to_speech env t = (tts_reply env t, [TextToSpeech t])"

text \<open>\<open>create_slide_video\<close>: the image is trimmed to even sides and resized to them,
  which raises when a side is 0, before any process is started; with audio the length
  comes from \<open>ffprobe\<close>, whose output must parse as a number; a return code other than 0
  of \<open>ffmpeg\<close> raises.\<close>

definition even_size :: "image \<Rightarrow> nat \<times> nat" where
  "even_size img =
     (if width img mod 2 \<noteq> 0 then width img - 1 else width img,
      if height img mod 2 \<noteq> 0 then height img - 1 else height img)"

definition create_slide_video ::
  "environment \<Rightarrow> image \<Rightarrow> audio option \<Rightarrow> (py_error + clip) \<times> external_call list" where
  "create_slide_video env img audio_path =
     (if fst (even_size img) = 0 \<or> snd (even_size img) = 0 then (Inl ValueError, [])
      else
        case audio_path of
          Some a \<Rightarrow>
            if \<not> ffprobe_parses env a then (Inl ValueError, [Ffprobe a])
            else if ffmpeg_returncode env (Mux (even_size img) (Some a)) \<noteq> 0
            then (Inl CalledProcessError, [Ffprobe a, Ffmpeg (Mux (even_size img) (Some a))])
            else (Inr (Clip (even_size img) (Some a)),
                  [Ffprobe a, Ffmpeg (Mux (even_size img) (Some a))])
        | None \<Rightarrow>
            if ffmpeg_returncode env (Mux (even_size img) None) \<noteq> 0
            then (Inl CalledProcessError, [Ffmpeg (Mux (even_size img) None)])
            else (Inr (Clip (even_size img) None), [Ffmpeg (Mux (even_size img) None)]))"

definition combine_videos ::
  "environment \<Rightarrow> clip list \<Rightarrow> (py_error + clip list) \<times> external_call list" where
  "combine_videos env video_paths =
     (if ffmpeg_returncode env (Concat (length video_paths)) \<noteq> 0
      then (Inl CalledProcessError, [Ffmpeg (Concat (length video_paths))])
      else (Inr video_paths, [Ffmpeg (Concat (length video_paths))]))"

text \<open>The per-slide loop over \<open>zip(images, speaker_notes)\<close>; the first exception ends it.\<close>

fun slide_loop ::
  "environment \<Rightarrow> (image \<times> pystr option) list \<Rightarrow> (py_error + clip list) \<times> external_call list" where
  "slide_loop env [] = (Inr [], [])"
| "slide_loop env ((img, note) # rest) =
     (if note \<noteq> None \<and> note \<noteq> Some []
      then
        (case text_to_speech env (the note) of
           (Inl e, tr1) \<Rightarrow> (Inl e, tr1)
         | (Inr a, tr1) \<Rightarrow>
             (case create_slide_video env img (Some a) of
                (Inl e, tr2) \<Rightarrow> (Inl e, tr1 @ tr2)
              | (Inr c, tr2) \<Rightarrow>
                  (case slide_loop env rest of
                     (Inl e, tr3) \<Rightarrow> (Inl e, tr1 @ tr2 @ tr3)
                   | (Inr cs, tr3) \<Rightarrow> (Inr (c # cs), tr1 @ tr2 @ tr3))))
      else
        (case create_slide_video env img None of
           (Inl e, tr2) \<Rightarrow> (Inl e, tr2)
         | (Inr c, tr2) \<Rightarrow>
             (case slide_loop env rest of
                (Inl e, tr3) \<Rightarrow> (Inl e, tr2 @ tr3)
              | (Inr cs, tr3) \<Rightarrow> (Inr (c # cs), tr2 @ tr3))))"

text \<open>The messages of \<open>generate_video\<close>: no slide image in the archive; the two counts
  differ (slides of the deck, images of the archive); done, with the number of slides;
  an exception was caught.\<close>

datatype video_message = NoImagesFound | CountMismatch nat nat | VideoCompleted nat
  | ErrorOccurred py_error

record video_run =
  ok :: bool
  message :: video_message
  calls :: "external_call list"
  video :: "clip list option"

definition generate_video :: "environment \<Rightarrow> presentation \<Rightarrow> zip_archive \<Rightarrow> video_run" where
  "generate_video env prs zf =
     (let speaker_notes = extract_speaker_notes prs in
      case extract_images_from_zip zf of
        Inl e \<Rightarrow> \<lparr>ok = False, message = ErrorOccurred e, calls = [], video = None\<rparr>
      | Inr images \<Rightarrow>
          let total_slides = length images in
          if total_slides = 0
          then \<lparr>ok = False, message = NoImagesFound, calls = [], video = None\<rparr>
          else if length speaker_notes \<noteq> total_slides
          then \<lparr>ok = False, message = CountMismatch (length speaker_notes) total_slides,
                calls = [], video = None\<rparr>
          else
            (case slide_loop env (zip images speaker_notes) of
               (Inl e, tr) \<Rightarrow>
                 \<lparr>ok = False, message = ErrorOccurred e, calls = tr, video = None\<rparr>
             | (Inr video_paths, tr) \<Rightarrow>
                 (case combine_videos env video_paths of
                    (Inl e, tr') \<Rightarrow>
                      \<lparr>ok = False, message = ErrorOccurred e, calls = tr @ tr', video = None\<rparr>
                  | (Inr out, tr') \<Rightarrow>
                      \<lparr>ok = True, message = VideoCompleted total_slides, calls = tr @ tr',
                       video = Some out\<rparr>)))"

text \<open>The conditions under which the scan keeps an entry name, and the number it
  reads from the name.\<close>

definition is_slide_image :: "pystr \<Rightarrow> bool" where
  "is_slide_image name =
     (\<not> endswith name (ascii ''/'') \<and> \<not> contains name (ascii ''__MACOSX'')
      \<and> \<not> startswith (basename name) (ascii ''.'')
      \<and> (endswith (lower name) (ascii ''.jpeg'') \<or> endswith (lower name) (ascii ''.jpg''))
      \<and> (\<exists>c\<in>set (basename name). isdigit c))"

definition slide_number :: "pystr \<Rightarrow> nat" where
  "slide_number name = int_of_digits (first_digits (basename name))"

text \<open>An archive with a directory entry, a metadata entry that is not hidden, a
  metadata entry that is, a hidden file, a text file, an image without a number, and
  three numbered images in textual order, the last with a full-width digit after the
  word for slide. A world in which every call succeeds.\<close>

definition example_zip :: zip_archive where
  "example_zip =
     [(ascii ''slides/'', None),
      (ascii ''slides/slide10.jpeg'', Some (Image 11 8)),
      (ascii ''__MACOSX/slides/slide3.jpeg'', Some (Image 6 6)),
      (ascii ''__MACOSX/slides/._slide2.jpeg'', None),
      (ascii ''slides/.hidden1.jpg'', None),
      (ascii ''slides/slide2.JPG'', Some (Image 4 4)),
      (ascii ''slides/notes1.txt'', None),
      (ascii ''slides/cover.jpeg'', Some (Image 2 2)),
      ([0x30B9, 0x30E9, 0x30A4, 0x30C9, 0xFF11] @ ascii ''.jpeg'', Some (Image 3 3))]"

text \<open>The archive of the two names \<open>slide10.jpeg\<close>, \<open>slide2.jpeg\<close>, and an entry name
  whose number has 4301 digits.\<close>

definition example_small_zip :: zip_archive where
  "example_small_zip =
     [(ascii ''slide10.jpeg'', Some (Image 11 8)), (ascii ''slide2.jpeg'', Some (Image 4 4))]"

definition long_digit_name :: pystr where
  "long_digit_name = replicate 4301 0x31 @ ascii ''.jpg''"

definition example_environment :: environment where
  "example_environment =
     \<lparr>tts_reply = (\<lambda>t. Inr (Audio t)), ffprobe_parses = (\<lambda>a. True),
      ffmpeg_returncode = (\<lambda>j. 0)\<rparr>"

section \<open>Reading the agenda slide back\<close>

text \<open>
  Modelled from the spec: the re-parser of the agenda slide, which the repository does
  not hold. The specification speaks of a trivial re-parser that strips the leading
  numbering \<open>"<i>. "\<close> from each line of the body text of the agenda slide;
  \<open>spec_reparse_agenda\<close> follows these words: the lines of the text (\<open>split_on\<close> is
  \<open>str.split\<close> on one separator character), each without its leading digits and the dot
  and space after them, and no line for the empty text. \<open>spec_reparse_numbers\<close> reads
  the number in front of each line.
\<close>

fun split_on :: "nat \<Rightarrow> pystr \<Rightarrow> pystr list" where
  "split_on c [] = [[]]"
| "split_on c (x # xs) =
     (if x = c then [] # split_on c xs
      else (case split_on c xs of [] \<Rightarrow> [[x]] | l # ls \<Rightarrow> (x # l) # ls))"

definition strip_numbering :: "pystr \<Rightarrow> pystr" where
  "strip_numbering line =
     (let rest = dropWhile isdigit line
      in if startswith rest (ascii ''. '') then drop 2 rest else line)"

definition line_number :: "pystr \<Rightarrow> nat" where
  "line_number line = int_of_digits (takeWhile isdigit line)"

definition spec_reparse_agenda :: "pystr \<Rightarrow> pystr list" where
  "spec_reparse_agenda body =
     (if body = [] then [] else map strip_numbering (split_on newline body))"

definition spec_reparse_numbers :: "pystr \<Rightarrow> nat list" where
  "spec_reparse_numbers body =
     (if body = [] then [] else map line_number (split_on newline body))"

section \<open>Properties of the text functions\<close>

text \<open>The decimal digits below the Arabic-Indic ones are the ASCII digits; no code point
  from 7258 up to the Vai digits is a decimal digit; the full-width digits are.\<close>

lemma decimal_zero_below:
  "c < 1632 \<Longrightarrow> decimal_zero c = (if 48 \<le> c \<and> c < 58 then Some 48 else None)"
  by (simp add: decimal_zero_def digit_zeros_def)

lemma isdigit_below: "c < 1632 \<Longrightarrow> isdigit c = (48 \<le> c \<and> c < 58)"
  by (simp add: isdigit_def decimal_zero_below)

lemma digit_val_below:
  "c < 1632 \<Longrightarrow> digit_val c = (if 48 \<le> c \<and> c < 58 then c - 48 else 0)"
  by (simp add: digit_val_def decimal_zero_below)

lemma decimal_zero_gap: "7258 \<le> c \<Longrightarrow> c < 42528 \<Longrightarrow> decimal_zero c = None"
  by (simp add: decimal_zero_def digit_zeros_def)

lemma isdigit_gap: "7258 \<le> c \<Longrightarrow> c < 42528 \<Longrightarrow> isdigit c = False"
  by (simp add: isdigit_def decimal_zero_gap)

lemma decimal_zero_fullwidth:
  "65296 \<le> c \<Longrightarrow> c < 65306 \<Longrightarrow> decimal_zero c = Some 65296"
  by (simp add: decimal_zero_def digit_zeros_def)

lemma isdigit_fullwidth: "65296 \<le> c \<Longrightarrow> c < 65306 \<Longrightarrow> isdigit c = True"
  by (simp add: isdigit_def decimal_zero_fullwidth)

lemma digit_val_fullwidth: "65296 \<le> c \<Longrightarrow> c < 65306 \<Longrightarrow> digit_val c = c - 65296"
  by (simp add: digit_val_def decimal_zero_fullwidth)

lemmas text_eval_defs =
  endswith_def startswith_def basename_def lower_def lower_char_def first_digits_def
  isdigit_below digit_val_below isdigit_gap isdigit_fullwidth digit_val_fullwidth
  int_of_digits_def py_int_def int_max_str_digits_def

lemma stored_text_append: "stored_text (a @ b) = stored_text a @ stored_text b"
  by (simp add: stored_text_def)

lemma stored_text_clean: "\<forall>c\<in>set t. \<not> is_escaped c \<Longrightarrow> stored_text t = t"
  by (induction t) (simp_all add: stored_text_def escape_char_def)

lemma newline_not_escaped: "\<not> is_escaped newline"
  by (simp add: is_escaped_def newline_def)

section \<open>Properties of the deck builder\<close>

lemma slides_add_content_slides:
  "slides (add_content_slides l h prs bs)
     = slides prs @ map (\<lambda>b. fill_header_body h b (new_slide l)) bs"
  by (induction bs arbitrary: prs) (simp_all add: add_slide_def)

lemma slides_add_agenda_slides:
  "slides (add_agenda_slides l m prs es) = slides prs @ concat (map (item_slides l m) es)"
proof (induction es arbitrary: prs)
  case Nil
  show ?case by simp
next
  case (Cons e es)
  obtain i a where e: "e = (i, a)" by (cases e)
  show ?case
    by (cases "m a")
       (simp_all add: e Cons.IH item_slides_def slides_add_content_slides content_slide_def)
qed

lemma masters_add_content_slides:
  "slide_masters (add_content_slides l h prs bs) = slide_masters prs"
  by (induction bs arbitrary: prs) (simp_all add: add_slide_def)

lemma masters_add_agenda_slides:
  "slide_masters (add_agenda_slides l m prs es) = slide_masters prs"
proof (induction es arbitrary: prs)
  case Nil
  show ?case by simp
next
  case (Cons e es)
  obtain i a where e: "e = (i, a)" by (cases e)
  show ?case
    by (cases "m a") (simp_all add: e Cons.IH masters_add_content_slides)
qed

text \<open>The deck that a well-formed template yields: the slides of the template, the
  title slide, the agenda slide, the content slides, the closing slide.\<close>

lemma create_slides_from_json_slides:
  assumes "slide_masters prs = master # ms" and "3 \<le> length master"
  shows "\<exists>prs'. create_slides_from_json prs content = Inr prs'
     \<and> slide_masters prs' = slide_masters prs
     \<and> slides prs' = slides prs
         @ [fill_title (title content) (new_slide (master ! 1)),
            fill_header_body agenda_header (agenda_text (agenda content)) (new_slide (master ! 0))]
         @ concat (map (item_slides (master ! 0) (main content)) (enumerate 0 (agenda content)))
         @ [new_slide (master ! 2)]"
  using assms
  by (simp add: create_slides_from_json_def Let_def add_slide_def slides_add_agenda_slides
      masters_add_agenda_slides)

lemma length_item_slides:
  "length (concat (map (item_slides l m) (enumerate k ag)))
     = sum_list (map (\<lambda>a. length (the (m a))) (filter (\<lambda>a. a \<in> dom m) ag))"
proof (induction ag arbitrary: k)
  case Nil
  show ?case by simp
next
  case (Cons a ag)
  have "length (concat (map (item_slides l m) (enumerate k (a # ag))))
      = length (item_slides l m (k, a))
        + length (concat (map (item_slides l m) (enumerate (Suc k) ag)))"
    by simp
  also have "\<dots> = length (item_slides l m (k, a))
        + sum_list (map (\<lambda>a. length (the (m a))) (filter (\<lambda>a. a \<in> dom m) ag))"
    by (simp only: Cons.IH)
  also have "\<dots> = sum_list (map (\<lambda>a. length (the (m a))) (filter (\<lambda>a. a \<in> dom m) (a # ag)))"
    by (cases "m a") (auto simp: item_slides_def)
  finally show ?case .
qed

lemma layout_item_slides:
  "s \<in> set (concat (map (item_slides l m) es)) \<Longrightarrow> slide_layout s = l"
  by (auto simp: item_slides_def content_slide_def fill_header_body_def new_slide_def
      split: option.splits)

lemma add_agenda_slides_absent_key:
  "m a = None \<Longrightarrow> add_agenda_slides l (m(a \<mapsto> [])) prs es = add_agenda_slides l m prs es"
proof (induction es arbitrary: prs)
  case Nil
  show ?case by simp
next
  case (Cons e es)
  note IH = Cons.IH [OF Cons.prems]
  obtain i b where e: "e = (i, b)" by (cases e)
  show ?case
  proof (cases "b = a")
    case True
    have "add_agenda_slides l (m(a \<mapsto> [])) prs ((i, a) # es)
        = add_agenda_slides l (m(a \<mapsto> [])) prs es"
      by simp
    also have "\<dots> = add_agenda_slides l m prs es" by (rule IH)
    also have "\<dots> = add_agenda_slides l m prs ((i, a) # es)"
      using Cons.prems by simp
    finally show ?thesis by (simp only: e True)
  next
    case False
    have "add_agenda_slides l (m(a \<mapsto> [])) prs ((i, b) # es)
        = (case m b of None \<Rightarrow> add_agenda_slides l (m(a \<mapsto> [])) prs es
           | Some sc \<Rightarrow> add_agenda_slides l (m(a \<mapsto> []))
               (add_content_slides l (numbered i b) prs sc) es)"
      using False by simp
    also have "\<dots> = add_agenda_slides l m prs ((i, b) # es)"
      by (simp only: IH add_agenda_slides.simps)
    finally show ?thesis by (simp only: e)
  qed
qed

text \<open>Positions in a list of the shape that the deck has.\<close>

lemma sandwich_first: "(xs @ t # ys @ [e]) ! length xs = t"
  by simp

lemma sandwich_last: "(xs @ t # ys @ [e]) ! (length (xs @ t # ys @ [e]) - 1) = e"
proof -
  have "(xs @ t # ys @ [e]) ! (length (xs @ t # ys @ [e]) - 1) = last (xs @ t # ys @ [e])"
    by (rule last_conv_nth [symmetric]) simp
  also have "\<dots> = e" by simp
  finally show ?thesis .
qed

lemma sandwich_middle:
  assumes "length xs < i" and "i < length (xs @ t # ys @ [e]) - 1"
  shows "(xs @ t # ys @ [e]) ! i \<in> set ys"
proof -
  define j where "j = i - Suc (length xs)"
  have i: "i = length xs + Suc j" using assms(1) by (simp add: j_def)
  have j: "j < length ys" using assms by (simp add: j_def)
  have "(xs @ t # ys @ [e]) ! i = (t # ys @ [e]) ! Suc j"
    unfolding i by (rule nth_append_length_plus)
  also have "\<dots> = (ys @ [e]) ! j" by simp
  also have "\<dots> = ys ! j" using j by (simp add: nth_append)
  finally show ?thesis using j by simp
qed


text \<open>
  Claim C1. For every structure object, and every template whose first master has at
  least three layouts, \<open>create_slides_from_json\<close> puts after the slides of the template
  exactly \<open>2 + 1 +\<close> the sum, over the agenda items that are keys of \<open>main\<close>, of the number
  of slide bodies of the item; the first of these slides is the title slide, the second
  the agenda slide, the last the closing slide. A template document holds no slides of its
  own, and then these slides are the whole deck: slide 1 is the title slide, slide 2 the
  agenda slide.
\<close>

theorem deck_slide_count:
  assumes "slide_masters prs = master # ms" and "3 \<le> length master"
  shows "\<exists>deck. create_slides_from_json prs content = Inr deck
     \<and> take (length (slides prs)) (slides deck) = slides prs
     \<and> length (drop (length (slides prs)) (slides deck))
         = 2 + 1 + sum_list (map (\<lambda>a. length (the (main content a)))
                       (filter (\<lambda>a. a \<in> dom (main content)) (agenda content)))
     \<and> drop (length (slides prs)) (slides deck) ! 0
         = fill_title (title content) (new_slide (master ! 1))
     \<and> drop (length (slides prs)) (slides deck) ! 1
         = fill_header_body agenda_header (agenda_text (agenda content)) (new_slide (master ! 0))
     \<and> last (slides deck) = new_slide (master ! 2)
     \<and> (slides prs = [] \<longrightarrow>
          length (slides deck)
            = 2 + 1 + sum_list (map (\<lambda>a. length (the (main content a)))
                          (filter (\<lambda>a. a \<in> dom (main content)) (agenda content)))
          \<and> slides deck ! 0 = fill_title (title content) (new_slide (master ! 1))
          \<and> slides deck ! 1
              = fill_header_body agenda_header (agenda_text (agenda content))
                  (new_slide (master ! 0)))"
proof -
  let ?n = "sum_list (map (\<lambda>a. length (the (main content a)))
     (filter (\<lambda>a. a \<in> dom (main content)) (agenda content)))"
  let ?st = "fill_title (title content) (new_slide (master ! 1))"
  let ?sa = "fill_header_body agenda_header (agenda_text (agenda content))
     (new_slide (master ! 0))"
  let ?cs = "concat (map (item_slides (master ! 0) (main content))
     (enumerate 0 (agenda content)))"
  from create_slides_from_json_slides [OF assms, of content]
  obtain deck where d: "create_slides_from_json prs content = Inr deck"
    and s: "slides deck = slides prs @ [?st, ?sa] @ ?cs @ [new_slide (master ! 2)]"
    by blast
  have new: "drop (length (slides prs)) (slides deck)
      = [?st, ?sa] @ ?cs @ [new_slide (master ! 2)]"
    by (simp add: s)
  have 1: "take (length (slides prs)) (slides deck) = slides prs"
    by (simp add: s)
  have 2: "length (drop (length (slides prs)) (slides deck)) = 2 + 1 + ?n"
    by (simp only: new length_append length_item_slides) simp
  have 3: "drop (length (slides prs)) (slides deck) ! 0 = ?st"
    by (simp only: new) simp
  have 4: "drop (length (slides prs)) (slides deck) ! 1 = ?sa"
    by (simp only: new) simp
  have 5: "last (slides deck) = new_slide (master ! 2)"
    by (simp add: s)
  have 6: "slides prs = [] \<longrightarrow>
      length (slides deck) = 2 + 1 + ?n \<and> slides deck ! 0 = ?st \<and> slides deck ! 1 = ?sa"
  proof
    assume "slides prs = []"
    then have "drop (length (slides prs)) (slides deck) = slides deck" by simp
    with 2 3 4 show "length (slides deck) = 2 + 1 + ?n \<and> slides deck ! 0 = ?st
        \<and> slides deck ! 1 = ?sa"
      by simp
  qed
  from d 1 2 3 4 5 6 show ?thesis by (intro exI [of _ deck] conjI)
qed

theorem deck_slide_count_witness:
  "\<exists>deck. create_slides_from_json example_template example_lecture = Inr deck
     \<and> length (slides deck) = 6
     \<and> slides deck ! 0 = fill_title (ascii ''T'') (new_slide (example_layouts ! 1))
     \<and> last (slides deck) = new_slide (example_layouts ! 2)"
  using deck_slide_count [of example_template example_layouts "[]" example_lecture]
  by (auto simp add: example_template_def example_layouts_def example_lecture_def)

text \<open>
  Claim C2, as the code has it. The deck builder takes its three layouts from the first
  master of the template at the fixed positions 0, 1 and 2, in the order content, title,
  closing: the title slide is instantiated from the layout at position 1, the agenda slide
  and every content slide from the layout at position 0, and the closing slide from the
  layout at position 2. The slides that the template already holds stay in front.
\<close>

theorem layout_positions:
  assumes "slide_masters prs = master # ms" and "3 \<le> length master"
  shows "\<exists>deck. create_slides_from_json prs content = Inr deck
     \<and> length (slides prs) + 3 \<le> length (slides deck)
     \<and> take (length (slides prs)) (slides deck) = slides prs
     \<and> slide_layout (slides deck ! length (slides prs)) = master ! 1
     \<and> (\<forall>i. length (slides prs) < i \<and> i < length (slides deck) - 1
           \<longrightarrow> slide_layout (slides deck ! i) = master ! 0)
     \<and> slide_layout (slides deck ! (length (slides deck) - 1)) = master ! 2"
proof -
  define sa where "sa = fill_header_body agenda_header (agenda_text (agenda content))
    (new_slide (master ! 0))"
  define cs where "cs = concat (map (item_slides (master ! 0) (main content))
    (enumerate 0 (agenda content)))"
  define st where "st = fill_title (title content) (new_slide (master ! 1))"
  define se where "se = new_slide (master ! 2)"
  from create_slides_from_json_slides [OF assms, of content]
  obtain deck where d: "create_slides_from_json prs content = Inr deck"
    and s: "slides deck = slides prs @ st # (sa # cs) @ [se]"
    by (auto simp: sa_def cs_def st_def se_def)
  have "slide_layout sa = master ! 0"
    by (simp add: sa_def fill_header_body_def new_slide_def)
  moreover have "slide_layout x = master ! 0" if "x \<in> set cs" for x
    using that unfolding cs_def by (rule layout_item_slides)
  ultimately have mid: "slide_layout x = master ! 0" if "x \<in> set (sa # cs)" for x
    using that by auto
  have "slide_layout (slides deck ! i) = master ! 0"
    if "length (slides prs) < i \<and> i < length (slides deck) - 1" for i
  proof -
    from that have "slides deck ! i \<in> set (sa # cs)"
      unfolding s by (intro sandwich_middle) simp_all
    then show ?thesis by (rule mid)
  qed
  moreover have "slide_layout (slides deck ! length (slides prs)) = master ! 1"
    unfolding s sandwich_first by (simp add: st_def fill_title_def new_slide_def)
  moreover have "slide_layout (slides deck ! (length (slides deck) - 1)) = master ! 2"
    unfolding s sandwich_last by (simp add: se_def new_slide_def)
  moreover have "take (length (slides prs)) (slides deck) = slides prs"
    by (simp add: s)
  moreover have "length (slides prs) + 3 \<le> length (slides deck)"
    by (simp add: s)
  ultimately show ?thesis using d by blast
qed

theorem layout_positions_witness:
  "\<exists>deck. create_slides_from_json example_template example_lecture = Inr deck
     \<and> slide_layout (slides deck ! 0) = example_layouts ! 1
     \<and> (\<forall>i. 0 < i \<and> i < length (slides deck) - 1
           \<longrightarrow> slide_layout (slides deck ! i) = example_layouts ! 0)
     \<and> slide_layout (slides deck ! (length (slides deck) - 1)) = example_layouts ! 2"
  using layout_positions [of example_template example_layouts "[]" example_lecture]
  by (auto simp add: example_template_def example_layouts_def)


text \<open>
  The order title, content, closing at the positions 0, 1, 2 does not hold: on the example
  template the first slide of the deck is not an instance of the layout at position 0, and
  the second is not an instance of the layout at position 1.
\<close>

theorem layout_positions_counterexample:
  "\<not> isl (create_slides_from_json example_template example_lecture)
   \<and> slide_layout (slides (projr (create_slides_from_json example_template example_lecture)) ! 0)
       \<noteq> hd (slide_masters example_template) ! 0
   \<and> slide_layout (slides (projr (create_slides_from_json example_template example_lecture)) ! 1)
       \<noteq> hd (slide_masters example_template) ! 1"
  by (simp add: create_slides_from_json_def example_template_def example_layouts_def
      example_lecture_def Let_def add_slide_def fill_title_def fill_header_body_def new_slide_def)

text \<open>
  Claim C7. When an agenda entry is not a key of \<open>main\<close>, \<open>create_slides_from_json\<close>
  raises no error and returns the deck that it returns when \<open>main\<close> maps that entry to
  the empty list of slide bodies: the entry contributes no content slide, and the content
  slides of the entries before and after it are those of their own positions in the agenda.
\<close>

theorem absent_agenda_key_dropped:
  assumes "slide_masters prs = master # ms" and "3 \<le> length master"
    and "agenda content = before @ a # after" and "main content a = None"
  shows "\<exists>deck. create_slides_from_json prs content = Inr deck
     \<and> create_slides_from_json prs (content\<lparr>main := (main content)(a \<mapsto> [])\<rparr>) = Inr deck
     \<and> slides deck = slides prs
         @ [fill_title (title content) (new_slide (master ! 1)),
            fill_header_body agenda_header (agenda_text (agenda content)) (new_slide (master ! 0))]
         @ concat (map (item_slides (master ! 0) (main content)) (enumerate 0 before))
         @ concat (map (item_slides (master ! 0) (main content))
             (enumerate (Suc (length before)) after))
         @ [new_slide (master ! 2)]"
proof -
  from create_slides_from_json_slides [OF assms(1,2), of content]
  obtain deck where d: "create_slides_from_json prs content = Inr deck"
    and s: "slides deck = slides prs
         @ [fill_title (title content) (new_slide (master ! 1)),
            fill_header_body agenda_header (agenda_text (agenda content)) (new_slide (master ! 0))]
         @ concat (map (item_slides (master ! 0) (main content)) (enumerate 0 (agenda content)))
         @ [new_slide (master ! 2)]"
    by blast
  have "item_slides (master ! 0) (main content) (length before, a) = []"
    by (simp add: item_slides_def assms(4))
  then have "concat (map (item_slides (master ! 0) (main content)) (enumerate 0 (agenda content)))
      = concat (map (item_slides (master ! 0) (main content)) (enumerate 0 before))
        @ concat (map (item_slides (master ! 0) (main content))
            (enumerate (Suc (length before)) after))"
    by (simp add: assms(3) enumerate_append_eq)
  with s have shape: "slides deck = slides prs
         @ [fill_title (title content) (new_slide (master ! 1)),
            fill_header_body agenda_header (agenda_text (agenda content)) (new_slide (master ! 0))]
         @ concat (map (item_slides (master ! 0) (main content)) (enumerate 0 before))
         @ concat (map (item_slides (master ! 0) (main content))
             (enumerate (Suc (length before)) after))
         @ [new_slide (master ! 2)]"
    by simp
  have "create_slides_from_json prs (content\<lparr>main := (main content)(a \<mapsto> [])\<rparr>)
      = create_slides_from_json prs content"
    by (simp add: create_slides_from_json_def assms(1) Let_def add_agenda_slides_absent_key [of "main content" a, OF assms(4)])
  with d shape show ?thesis by simp
qed

theorem absent_agenda_key_dropped_witness:
  "\<exists>deck. create_slides_from_json example_template example_lecture = Inr deck
     \<and> create_slides_from_json example_template
          (example_lecture\<lparr>main := (main example_lecture)(ascii ''b'' \<mapsto> [])\<rparr>) = Inr deck"
  using absent_agenda_key_dropped
    [of example_template example_layouts "[]" example_lecture "[ascii ''a'']" "ascii ''b''"
      "[ascii ''c'']"]
  by (auto simp add: example_template_def example_layouts_def example_lecture_def)

section \<open>Properties of the speaker notes generator\<close>

lemma strip_empty_iff: "strip s = [] \<longleftrightarrow> (\<forall>c\<in>set s. isspace c)"
proof
  assume "strip s = []"
  then have "dropWhile isspace (rev (dropWhile isspace s)) = []"
    by (simp add: strip_def)
  then have all: "\<forall>c\<in>set (dropWhile isspace s). isspace c"
    by (simp add: dropWhile_eq_Nil_conv)
  have "dropWhile isspace s = []"
  proof (rule ccontr)
    assume ne: "dropWhile isspace s \<noteq> []"
    then have "\<not> isspace (hd (dropWhile isspace s))" by (rule hd_dropWhile)
    moreover have "hd (dropWhile isspace s) \<in> set (dropWhile isspace s)"
      using ne by (rule hd_in_set)
    ultimately show False using all by blast
  qed
  then show "\<forall>c\<in>set s. isspace c" by (simp add: dropWhile_eq_Nil_conv)
next
  assume "\<forall>c\<in>set s. isspace c"
  then have "dropWhile isspace s = []" by simp
  then have "strip s = rev (dropWhile isspace (rev []))" by (simp only: strip_def)
  then show "strip s = []" by simp
qed

lemma length_add_notes_loop: "length (add_notes_loop sl es) = length sl"
proof (induction es arbitrary: sl)
  case Nil
  show ?case by simp
next
  case (Cons e es)
  obtain i n where e: "e = (i, n)" by (cases e)
  show ?case by (simp add: e Cons.IH)
qed

lemma add_notes_loop_nth:
  "j < length sl \<Longrightarrow>
   add_notes_loop sl (enumerate k ns) ! j
     = (if k \<le> j \<and> j < k + length ns then write_notes (sl ! j) (ns ! (j - k)) else sl ! j)"
proof (induction ns arbitrary: sl k)
  case Nil
  show ?case by auto
next
  case (Cons n ns)
  define sl' where "sl' = (if k < length sl then sl[k := write_notes (sl ! k) n] else sl)"
  have len: "length sl' = length sl" by (simp add: sl'_def)
  have step: "add_notes_loop sl (enumerate k (n # ns)) = add_notes_loop sl' (enumerate (Suc k) ns)"
    by (simp add: sl'_def)
  have IH: "add_notes_loop sl' (enumerate (Suc k) ns) ! j
     = (if Suc k \<le> j \<and> j < Suc k + length ns then write_notes (sl' ! j) (ns ! (j - Suc k))
        else sl' ! j)"
    using Cons.prems len by (intro Cons.IH) simp
  define r where "r = add_notes_loop sl (enumerate k (n # ns)) ! j"
  have r_eq: "r = (if Suc k \<le> j \<and> j < Suc k + length ns
        then write_notes (sl' ! j) (ns ! (j - Suc k)) else sl' ! j)"
    by (simp only: r_def step IH)
  have sl'_j: "sl' ! j = (if j = k then write_notes (sl ! k) n else sl ! j)"
    using Cons.prems by (simp add: sl'_def)
  consider "j < k" | "j = k" | "k < j" by arith
  then have "r = (if k \<le> j \<and> j < k + length (n # ns)
        then write_notes (sl ! j) ((n # ns) ! (j - k)) else sl ! j)"
  proof cases
    case 1
    then show ?thesis by (simp add: r_eq sl'_j)
  next
    case 2
    then show ?thesis using sl'_j by (simp add: r_eq)
  next
    case 3
    then have "(n # ns) ! (j - k) = ns ! (j - Suc k)"
      by (simp add: nth_Cons')
    then show ?thesis using 3 by (auto simp add: r_eq sl'_j)
  qed
  then show ?case by (simp only: r_def)
qed

lemma slides_add_notes_nth:
  assumes "i < length (slides prs)"
  shows "slides (add_notes_to_pptx prs ns) ! i
     = (if i < length ns then write_notes (slides prs ! i) (ns ! i) else slides prs ! i)"
  using add_notes_loop_nth [OF assms, of 0 ns] by (simp add: add_notes_to_pptx_def)

lemma add_notes_loop_beyond:
  "length sl \<le> k \<Longrightarrow> add_notes_loop sl (enumerate k ns) = sl"
  by (induction ns arbitrary: k) simp_all

lemma add_notes_loop_append:
  "add_notes_loop sl (es @ fs) = add_notes_loop (add_notes_loop sl es) fs"
proof (induction es arbitrary: sl)
  case Nil
  show ?case by simp
next
  case (Cons e es)
  obtain i n where e: "e = (i, n)" by (cases e)
  show ?case by (simp add: e Cons.IH)
qed

lemma add_notes_to_pptx_take:
  "add_notes_to_pptx prs ns = add_notes_to_pptx prs (take (length (slides prs)) ns)"
proof -
  define m where "m = length (slides prs)"
  have "enumerate 0 ns = enumerate 0 (take m ns @ drop m ns)" by simp
  also have "\<dots> = enumerate 0 (take m ns) @ enumerate (length (take m ns)) (drop m ns)"
    by (simp only: enumerate_append_eq add_0)
  finally have split: "enumerate 0 ns
      = enumerate 0 (take m ns) @ enumerate (length (take m ns)) (drop m ns)" .
  have "add_notes_loop (slides prs) (enumerate 0 ns)
      = add_notes_loop (add_notes_loop (slides prs) (enumerate 0 (take m ns)))
          (enumerate (length (take m ns)) (drop m ns))"
    by (simp only: split add_notes_loop_append)
  also have "\<dots> = add_notes_loop (slides prs) (enumerate 0 (take m ns))"
  proof (cases "m \<le> length ns")
    case True
    then have "length (take m ns) = m" by simp
    then show ?thesis
      by (simp only: ) (rule add_notes_loop_beyond, simp add: length_add_notes_loop m_def)
  next
    case False
    then have "drop m ns = []" by simp
    then show ?thesis by simp
  qed
  finally show ?thesis by (simp add: add_notes_to_pptx_def m_def)
qed

lemma script_loop_length: "length (script_loop client es) = length es"
proof (induction es)
  case Nil
  show ?case by simp
next
  case (Cons e es)
  obtain i d where e: "e = (i, d)" by (cases e)
  show ?case by (simp add: e Cons.IH)
qed

lemma script_loop_nth:
  "i < length images \<Longrightarrow>
   script_loop client (enumerate k images) ! i
     = generate_script_from_image client (images ! i) (k + i + 1)"
proof (induction images arbitrary: i k)
  case Nil
  then show ?case by simp
next
  case (Cons d ds)
  show ?case
  proof (cases i)
    case 0
    then show ?thesis by simp
  next
    case (Suc j)
    with Cons.prems have "j < length ds" by simp
    from Cons.IH [OF this, of "Suc k"] show ?thesis by (simp add: Suc)
  qed
qed

text \<open>
  Claim C4, as the code has it. For every slide whose notes frame holds a text \<open>T\<close> with
  at least one character that is not white space, and every new notes string \<open>B\<close> written
  back by \<open>add_notes_to_pptx\<close>, the frame is assigned \<open>T\<close>, a blank line, \<open>B\<close>; when
  neither \<open>T\<close> nor \<open>B\<close> holds a control character that the document library escapes, the
  resulting notes text is \<open>T\<close>, a blank line, \<open>B\<close>. When the slide has no notes text and
  \<open>B\<close> holds no such character, the notes are \<open>B\<close> alone. In particular \<open>A\<close> and \<open>B\<close>
  give \<open>A\<close>, a blank line, \<open>B\<close>.
\<close>

theorem existing_notes_kept:
  assumes "i < length (slides prs)" and "i < length notes_list"
  shows "((\<exists>c\<in>set (notes_frame_text (slides prs ! i)). \<not> isspace c) \<longrightarrow>
            notes_text (slides (add_notes_to_pptx prs notes_list) ! i)
              = Some (stored_text
                  (notes_frame_text (slides prs ! i) @ [newline, newline] @ notes_list ! i)))
       \<and> ((\<exists>c\<in>set (notes_frame_text (slides prs ! i)). \<not> isspace c)
            \<and> (\<forall>c\<in>set (notes_frame_text (slides prs ! i)). \<not> is_escaped c)
            \<and> (\<forall>c\<in>set (notes_list ! i). \<not> is_escaped c) \<longrightarrow>
            notes_text (slides (add_notes_to_pptx prs notes_list) ! i)
              = Some (notes_frame_text (slides prs ! i) @ [newline, newline] @ notes_list ! i))
       \<and> (notes_frame_text (slides prs ! i) = []
            \<and> (\<forall>c\<in>set (notes_list ! i). \<not> is_escaped c) \<longrightarrow>
            notes_text (slides (add_notes_to_pptx prs notes_list) ! i) = Some (notes_list ! i))"
proof -
  let ?T = "notes_frame_text (slides prs ! i)"
  let ?B = "notes_list ! i"
  let ?r = "notes_text (slides (add_notes_to_pptx prs notes_list) ! i)"
  have w: "slides (add_notes_to_pptx prs notes_list) ! i = write_notes (slides prs ! i) ?B"
    using assms by (simp add: slides_add_notes_nth)
  have 1: "(\<exists>c\<in>set ?T. \<not> isspace c) \<longrightarrow> ?r = Some (stored_text (?T @ [newline, newline] @ ?B))"
    by (auto simp add: w write_notes_def strip_empty_iff)
  have 2: "(\<exists>c\<in>set ?T. \<not> isspace c) \<and> (\<forall>c\<in>set ?T. \<not> is_escaped c)
      \<and> (\<forall>c\<in>set ?B. \<not> is_escaped c) \<longrightarrow> ?r = Some (?T @ [newline, newline] @ ?B)"
  proof
    assume h: "(\<exists>c\<in>set ?T. \<not> isspace c) \<and> (\<forall>c\<in>set ?T. \<not> is_escaped c)
      \<and> (\<forall>c\<in>set ?B. \<not> is_escaped c)"
    then have "\<forall>c\<in>set (?T @ [newline, newline] @ ?B). \<not> is_escaped c"
      using newline_not_escaped by auto
    then have "stored_text (?T @ [newline, newline] @ ?B) = ?T @ [newline, newline] @ ?B"
      by (rule stored_text_clean)
    with 1 h show "?r = Some (?T @ [newline, newline] @ ?B)" by simp
  qed
  have 3: "?T = [] \<and> (\<forall>c\<in>set ?B. \<not> is_escaped c) \<longrightarrow> ?r = Some ?B"
  proof
    assume h: "?T = [] \<and> (\<forall>c\<in>set ?B. \<not> is_escaped c)"
    then have "strip ?T = []" by (simp add: strip_def)
    then have "?r = Some (stored_text ?B)" by (simp add: w write_notes_def)
    with h show "?r = Some ?B" by (simp add: stored_text_clean)
  qed
  from 1 2 3 show ?thesis by (intro conjI)
qed

theorem existing_notes_kept_witness:
  "notes_text (slides (add_notes_to_pptx example_noted_deck [ascii ''B'']) ! 0)
     = Some (ascii ''A'' @ [newline, newline] @ ascii ''B'')"
  using existing_notes_kept [of 0 example_noted_deck "[ascii ''B'']", THEN conjunct2,
      THEN conjunct1]
  by (simp add: example_noted_deck_def notes_frame_text_def isspace_def whitespace_def
      is_escaped_def newline_def)

text \<open>
  Text that is not empty is not enough for the append: notes that hold one space are
  replaced by the new string. And what is read back is the stored form of what was
  assigned: a new string holding the control character 1 is read back with an escape.
\<close>

theorem existing_notes_kept_counterexample:
  "notes_frame_text \<lparr>slide_layout = example_layouts ! 0, placeholders = [],
       notes_text = Some (ascii '' '')\<rparr> \<noteq> []
   \<and> notes_text
        (slides (add_notes_to_pptx
           \<lparr>slide_masters = [],
            slides = [\<lparr>slide_layout = example_layouts ! 0, placeholders = [],
                       notes_text = Some (ascii '' '')\<rparr>]\<rparr> [ascii ''B'']) ! 0)
       \<noteq> Some (ascii '' '' @ [newline, newline] @ ascii ''B'')
   \<and> notes_text
        (slides (add_notes_to_pptx
           \<lparr>slide_masters = [],
            slides = [\<lparr>slide_layout = example_layouts ! 0, placeholders = [],
                       notes_text = Some (ascii ''A'')\<rparr>]\<rparr> [[1]]) ! 0)
       \<noteq> Some (ascii ''A'' @ [newline, newline] @ [1])"
  by (simp add: add_notes_to_pptx_def write_notes_def notes_frame_text_def strip_def
      isspace_def whitespace_def enumerate_eq_zip stored_text_def escape_char_def
      is_escaped_def newline_def)

text \<open>
  Claim C5. \<open>add_notes_to_pptx\<close> keeps the number of slides; the slide at index \<open>i\<close>, for
  \<open>i\<close> below both the length of the notes list and the number of slides, is written with
  \<open>notes_list[i]\<close>, so that its notes end with that string as the document stores it,
  which is the string itself when it holds no escaped control character; slides at
  indices from the length of the list on are left as they were; and the notes at indices
  from the number of slides on are dropped: the result is that of the list cut to the
  number of slides.
\<close>

theorem notes_by_position:
  "length (slides (add_notes_to_pptx prs notes_list)) = length (slides prs)
   \<and> (\<forall>i. i < length (slides prs) \<and> i < length notes_list \<longrightarrow>
        slides (add_notes_to_pptx prs notes_list) ! i
          = write_notes (slides prs ! i) (notes_list ! i)
        \<and> (\<exists>pre. notes_text (slides (add_notes_to_pptx prs notes_list) ! i)
              = Some (pre @ stored_text (notes_list ! i)))
        \<and> ((\<forall>c\<in>set (notes_list ! i). \<not> is_escaped c) \<longrightarrow>
             (\<exists>pre. notes_text (slides (add_notes_to_pptx prs notes_list) ! i)
                = Some (pre @ notes_list ! i))))
   \<and> (\<forall>i. i < length (slides prs) \<and> length notes_list \<le> i \<longrightarrow>
        slides (add_notes_to_pptx prs notes_list) ! i = slides prs ! i)
   \<and> add_notes_to_pptx prs notes_list
       = add_notes_to_pptx prs (take (length (slides prs)) notes_list)"
proof -
  have 1: "length (slides (add_notes_to_pptx prs notes_list)) = length (slides prs)"
    by (simp add: add_notes_to_pptx_def length_add_notes_loop)
  have 2: "\<forall>i. i < length (slides prs) \<and> i < length notes_list \<longrightarrow>
        slides (add_notes_to_pptx prs notes_list) ! i
          = write_notes (slides prs ! i) (notes_list ! i)
        \<and> (\<exists>pre. notes_text (slides (add_notes_to_pptx prs notes_list) ! i)
              = Some (pre @ stored_text (notes_list ! i)))
        \<and> ((\<forall>c\<in>set (notes_list ! i). \<not> is_escaped c) \<longrightarrow>
             (\<exists>pre. notes_text (slides (add_notes_to_pptx prs notes_list) ! i)
                = Some (pre @ notes_list ! i)))"
  proof (intro allI impI)
    fix i
    assume i: "i < length (slides prs) \<and> i < length notes_list"
    let ?r = "notes_text (slides (add_notes_to_pptx prs notes_list) ! i)"
    have w: "slides (add_notes_to_pptx prs notes_list) ! i
        = write_notes (slides prs ! i) (notes_list ! i)"
      using i by (simp add: slides_add_notes_nth)
    have e: "\<exists>pre. ?r = Some (pre @ stored_text (notes_list ! i))"
    proof (cases "strip (notes_frame_text (slides prs ! i)) \<noteq> []")
      case True
      then have "?r = Some (stored_text
          (notes_frame_text (slides prs ! i) @ [newline, newline] @ notes_list ! i))"
        by (simp add: w write_notes_def)
      moreover have "stored_text
          (notes_frame_text (slides prs ! i) @ [newline, newline] @ notes_list ! i)
          = (stored_text (notes_frame_text (slides prs ! i)) @ stored_text [newline, newline])
            @ stored_text (notes_list ! i)"
        by (simp only: stored_text_append append_assoc)
      ultimately have "?r = Some ((stored_text (notes_frame_text (slides prs ! i))
          @ stored_text [newline, newline]) @ stored_text (notes_list ! i))"
        by (simp only:)
      then show ?thesis by (rule exI)
    next
      case False
      then have "?r = Some ([] @ stored_text (notes_list ! i))"
        by (simp add: w write_notes_def)
      then show ?thesis by (rule exI)
    qed
    have c: "(\<forall>c\<in>set (notes_list ! i). \<not> is_escaped c) \<longrightarrow>
        (\<exists>pre. ?r = Some (pre @ notes_list ! i))"
    proof
      assume "\<forall>c\<in>set (notes_list ! i). \<not> is_escaped c"
      then have "stored_text (notes_list ! i) = notes_list ! i" by (rule stored_text_clean)
      with e show "\<exists>pre. ?r = Some (pre @ notes_list ! i)" by simp
    qed
    from w e c show "slides (add_notes_to_pptx prs notes_list) ! i
          = write_notes (slides prs ! i) (notes_list ! i)
        \<and> (\<exists>pre. ?r = Some (pre @ stored_text (notes_list ! i)))
        \<and> ((\<forall>c\<in>set (notes_list ! i). \<not> is_escaped c) \<longrightarrow>
             (\<exists>pre. ?r = Some (pre @ notes_list ! i)))"
      by (intro conjI)
  qed
  have 3: "\<forall>i. i < length (slides prs) \<and> length notes_list \<le> i \<longrightarrow>
        slides (add_notes_to_pptx prs notes_list) ! i = slides prs ! i"
    by (simp add: slides_add_notes_nth)
  note 4 = add_notes_to_pptx_take [of prs notes_list]
  from 1 2 3 4 show ?thesis by (intro conjI)
qed

theorem notes_by_position_witness:
  "length (slides (add_notes_to_pptx example_noted_deck
      [ascii ''B'', ascii ''C'', ascii ''D'', ascii ''E''])) = 3
   \<and> add_notes_to_pptx example_noted_deck [ascii ''B'', ascii ''C'', ascii ''D'', ascii ''E'']
       = add_notes_to_pptx example_noted_deck [ascii ''B'', ascii ''C'', ascii ''D'']
   \<and> slides (add_notes_to_pptx example_noted_deck [ascii ''B'']) ! 0
       = write_notes (slides example_noted_deck ! 0) (ascii ''B'')
   \<and> slides (add_notes_to_pptx example_noted_deck [ascii ''B'']) ! 2
       = slides example_noted_deck ! 2"
proof -
  let ?four = "[ascii ''B'', ascii ''C'', ascii ''D'', ascii ''E'']"
  note a = notes_by_position [of example_noted_deck ?four]
  note b = notes_by_position [of example_noted_deck "[ascii ''B'']"]
  have l: "length (slides example_noted_deck) = 3"
    by (simp add: example_noted_deck_def)
  from a have "length (slides (add_notes_to_pptx example_noted_deck ?four))
      = length (slides example_noted_deck)"
    by (rule conjunct1)
  then have 1: "length (slides (add_notes_to_pptx example_noted_deck ?four)) = 3"
    by (simp only: l)
  have "add_notes_to_pptx example_noted_deck ?four
      = add_notes_to_pptx example_noted_deck (take (length (slides example_noted_deck)) ?four)"
    by (rule a [THEN conjunct2, THEN conjunct2, THEN conjunct2])
  then have 2: "add_notes_to_pptx example_noted_deck ?four
      = add_notes_to_pptx example_noted_deck [ascii ''B'', ascii ''C'', ascii ''D'']"
    by (simp add: l)
  have "0 < length (slides example_noted_deck) \<and> 0 < length [ascii ''B'']"
    by (simp add: l)
  with spec [OF b [THEN conjunct2, THEN conjunct1], of 0]
  have 3: "slides (add_notes_to_pptx example_noted_deck [ascii ''B'']) ! 0
       = write_notes (slides example_noted_deck ! 0) (ascii ''B'')"
    by simp
  have "2 < length (slides example_noted_deck) \<and> length [ascii ''B''] \<le> 2"
    by (simp add: l)
  with spec [OF b [THEN conjunct2, THEN conjunct2, THEN conjunct1], of 2]
  have 4: "slides (add_notes_to_pptx example_noted_deck [ascii ''B'']) ! 2
      = slides example_noted_deck ! 2"
    by simp
  from 1 2 3 4 show ?thesis by (intro conjI)
qed

text \<open>
  Claim C10. For every slide whose existing notes text is not empty but consists of white
  space only, \<open>add_notes_to_pptx\<close> assigns the new notes string alone to the frame: the
  white space is discarded and no separator is inserted. The text read afterwards is the
  new string as the document stores it, the string itself when it holds no escaped
  control character.
\<close>

theorem blank_notes_overwritten:
  assumes "i < length (slides prs)" and "i < length notes_list"
    and "notes_text (slides prs ! i) = Some T" and "T \<noteq> []" and "\<forall>c\<in>set T. isspace c"
  shows "notes_text (slides (add_notes_to_pptx prs notes_list) ! i)
       = Some (stored_text (notes_list ! i))
     \<and> slides (add_notes_to_pptx prs notes_list) ! i
       = (slides prs ! i)\<lparr>notes_text := Some (stored_text (notes_list ! i))\<rparr>
     \<and> ((\<forall>c\<in>set (notes_list ! i). \<not> is_escaped c) \<longrightarrow>
          notes_text (slides (add_notes_to_pptx prs notes_list) ! i) = Some (notes_list ! i))"
proof -
  have w: "slides (add_notes_to_pptx prs notes_list) ! i
      = write_notes (slides prs ! i) (notes_list ! i)"
    using assms(1,2) by (simp add: slides_add_notes_nth)
  have "strip (notes_frame_text (slides prs ! i)) = []"
    using assms(3,5) by (simp add: strip_empty_iff notes_frame_text_def)
  then have s: "slides (add_notes_to_pptx prs notes_list) ! i
      = (slides prs ! i)\<lparr>notes_text := Some (stored_text (notes_list ! i))\<rparr>"
    by (simp add: w write_notes_def)
  then have r: "notes_text (slides (add_notes_to_pptx prs notes_list) ! i)
      = Some (stored_text (notes_list ! i))"
    by simp
  have "(\<forall>c\<in>set (notes_list ! i). \<not> is_escaped c) \<longrightarrow>
      notes_text (slides (add_notes_to_pptx prs notes_list) ! i) = Some (notes_list ! i)"
    using r by (simp add: stored_text_clean)
  with r s show ?thesis by (intro conjI)
qed

theorem blank_notes_overwritten_witness:
  "notes_text (slides example_noted_deck ! 1) = Some [0x3000, newline]
   \<and> notes_text (slides (add_notes_to_pptx example_noted_deck [ascii ''B'', ascii ''C'']) ! 1)
       = Some (ascii ''C'')"
  using blank_notes_overwritten
    [of 1 example_noted_deck "[ascii ''B'', ascii ''C'']" "[0x3000, newline]",
      THEN conjunct2, THEN conjunct2]
  by (simp add: example_noted_deck_def isspace_def whitespace_def newline_def is_escaped_def)

text \<open>
  Claim C9. When the vision-model call for a slide raises, \<open>generate_script_from_image\<close>
  returns the placeholder string, which holds the number of that slide, and raises nothing.
  So the per-slide loop of \<open>process_pptx_with_pdf\<close> goes on: the run succeeds with one
  script per page, the placeholder at every failed slide and the stripped reply at every
  slide whose call returned text, whatever happened at the other slides.
\<close>

theorem failed_slide_gets_placeholder:
  "(\<forall>e. client image_data n = Inl e \<longrightarrow>
        generate_script_from_image client image_data n = placeholder_script n
        \<and> (\<exists>pre post. generate_script_from_image client image_data n = pre @ str_nat n @ post))
   \<and> run_ok (process_pptx_with_pdf client prs (Inr images))
   \<and> length (run_notes (process_pptx_with_pdf client prs (Inr images))) = length images
   \<and> (\<forall>i. i < length images \<longrightarrow>
        (\<forall>e. client (images ! i) (i + 1) = Inl e \<longrightarrow>
           run_notes (process_pptx_with_pdf client prs (Inr images)) ! i
             = placeholder_script (i + 1))
        \<and> (\<forall>t rest. client (images ! i) (i + 1) = Inr (TextBlock t # rest) \<longrightarrow>
           run_notes (process_pptx_with_pdf client prs (Inr images)) ! i = strip t))"
proof -
  have a: "generate_script_from_image client image_data n = placeholder_script n
        \<and> (\<exists>pre post. generate_script_from_image client image_data n = pre @ str_nat n @ post)"
    if "client image_data n = Inl e" for e
  proof -
    have g: "generate_script_from_image client image_data n = placeholder_script n"
      using that by (simp add: generate_script_from_image_def)
    have "placeholder_script n
        = (slide_word @ ascii '' '') @ str_nat n @ (ascii '' '' @ could_not_generate)"
      by (simp add: placeholder_script_def)
    with g show ?thesis by metis
  qed
  have rn: "run_notes (process_pptx_with_pdf client prs (Inr images))
      = script_loop client (enumerate 0 images)"
    by (simp add: process_pptx_with_pdf_def Let_def)
  have b: "run_ok (process_pptx_with_pdf client prs (Inr images))"
    by (simp add: process_pptx_with_pdf_def Let_def)
  have c: "length (run_notes (process_pptx_with_pdf client prs (Inr images))) = length images"
    by (simp add: rn script_loop_length)
  have d: "(\<forall>e. client (images ! i) (i + 1) = Inl e \<longrightarrow>
           run_notes (process_pptx_with_pdf client prs (Inr images)) ! i
             = placeholder_script (i + 1))
        \<and> (\<forall>t rest. client (images ! i) (i + 1) = Inr (TextBlock t # rest) \<longrightarrow>
           run_notes (process_pptx_with_pdf client prs (Inr images)) ! i = strip t)"
    if "i < length images" for i
  proof -
    have "run_notes (process_pptx_with_pdf client prs (Inr images)) ! i
        = generate_script_from_image client (images ! i) (i + 1)"
      using script_loop_nth [OF that, of client 0] by (simp add: rn)
    then show ?thesis by (simp add: generate_script_from_image_def)
  qed
  from a b c d show ?thesis by (intro conjI allI impI) blast+
qed

theorem failed_slide_gets_placeholder_witness:
  "example_client (ascii ''page2'') 2 = Inl APIError
   \<and> run_ok (process_pptx_with_pdf example_client example_noted_deck
        (Inr [ascii ''page1'', ascii ''page2'', ascii ''page3'']))
   \<and> length (run_notes (process_pptx_with_pdf example_client example_noted_deck
        (Inr [ascii ''page1'', ascii ''page2'', ascii ''page3'']))) = 3
   \<and> run_notes (process_pptx_with_pdf example_client example_noted_deck
        (Inr [ascii ''page1'', ascii ''page2'', ascii ''page3''])) ! 0 = ascii ''ok''
   \<and> run_notes (process_pptx_with_pdf example_client example_noted_deck
        (Inr [ascii ''page1'', ascii ''page2'', ascii ''page3''])) ! 1 = placeholder_script 2"
proof -
  let ?run = "process_pptx_with_pdf example_client example_noted_deck
     (Inr [ascii ''page1'', ascii ''page2'', ascii ''page3''])"
  note inst = failed_slide_gets_placeholder
    [of example_client "ascii ''page2''" 2 example_noted_deck
      "[ascii ''page1'', ascii ''page2'', ascii ''page3'']"]
  note per_slide = inst [THEN conjunct2, THEN conjunct2, THEN conjunct2]
  have ok: "run_ok ?run"
    by (rule inst [THEN conjunct2, THEN conjunct1])
  have "length (run_notes ?run) = length [ascii ''page1'', ascii ''page2'', ascii ''page3'']"
    by (rule inst [THEN conjunct2, THEN conjunct2, THEN conjunct1])
  then have len: "length (run_notes ?run) = 3" by simp
  from spec [OF per_slide, of 0] have n0: "run_notes ?run ! 0 = ascii ''ok''"
    by (simp add: example_client_def strip_def isspace_def whitespace_def)
  from spec [OF per_slide, of 1] have "run_notes ?run ! 1 = placeholder_script (1 + 1)"
    by (simp add: example_client_def)
  then have n1: "run_notes ?run ! 1 = placeholder_script 2"
    by (simp add: numeral_2_eq_2)
  have "example_client (ascii ''page2'') 2 = Inl APIError" by (simp add: example_client_def)
  with ok len n0 n1 show ?thesis by (intro conjI)
qed

section \<open>Properties of the video generator\<close>

lemma first_digits_nonempty: "first_digits s \<noteq> [] \<longleftrightarrow> (\<exists>c\<in>set s. isdigit c)"
proof
  assume "first_digits s \<noteq> []"
  then have "takeWhile isdigit (dropWhile (\<lambda>c. \<not> isdigit c) s) \<noteq> []"
    by (simp add: first_digits_def)
  then have "dropWhile (\<lambda>c. \<not> isdigit c) s \<noteq> []"
    by (cases "dropWhile (\<lambda>c. \<not> isdigit c) s") simp_all
  then show "\<exists>c\<in>set s. isdigit c" by auto
next
  assume "\<exists>c\<in>set s. isdigit c"
  then have ne: "dropWhile (\<lambda>c. \<not> isdigit c) s \<noteq> []" by auto
  then have "isdigit (hd (dropWhile (\<lambda>c. \<not> isdigit c) s))"
    using hd_dropWhile [of "\<lambda>c. \<not> isdigit c" s] by simp
  with ne show "first_digits s \<noteq> []"
    by (simp add: first_digits_def takeWhile_eq_Nil_iff)
qed

lemma scan_names_skip: "\<not> is_slide_image n \<Longrightarrow> scan_names (n # names) = scan_names names"
  by (auto simp add: is_slide_image_def first_digits_nonempty [symmetric])

lemma scan_names_keep:
  "is_slide_image n \<Longrightarrow> length (first_digits (basename n)) \<le> int_max_str_digits \<Longrightarrow>
   scan_names (n # names)
     = (case scan_names names of
          Inl e \<Rightarrow> Inl e
        | Inr rest \<Rightarrow> Inr ((slide_number n, n) # rest))"
  by (auto simp add: is_slide_image_def first_digits_nonempty [symmetric] py_int_def
      slide_number_def split: sum.split)

lemma scan_names_filter:
  "\<forall>n\<in>set names. is_slide_image n \<longrightarrow>
       length (first_digits (basename n)) \<le> int_max_str_digits \<Longrightarrow>
   scan_names names = Inr (map (\<lambda>n. (slide_number n, n)) (filter is_slide_image names))"
proof (induction names)
  case Nil
  show ?case by simp
next
  case (Cons n names)
  then have IH: "scan_names names
      = Inr (map (\<lambda>n. (slide_number n, n)) (filter is_slide_image names))"
    by simp
  show ?case
  proof (cases "is_slide_image n")
    case True
    with Cons.prems have "length (first_digits (basename n)) \<le> int_max_str_digits" by simp
    with True show ?thesis by (simp add: scan_names_keep IH del: scan_names.simps)
  next
    case False
    then show ?thesis by (simp add: scan_names_skip IH del: scan_names.simps)
  qed
qed

lemma scan_names_too_long:
  "is_slide_image n \<Longrightarrow> int_max_str_digits < length (first_digits (basename n)) \<Longrightarrow>
   scan_names (n # names) = Inl ValueError"
  by (auto simp add: is_slide_image_def first_digits_nonempty [symmetric] py_int_def)

lemma insort_key_pair:
  "insort_key fst (f a, a) (map (\<lambda>n. (f n, n)) ys) = map (\<lambda>n. (f n, n)) (insort_key f a ys)"
  by (induction ys) simp_all

lemma sort_key_pair:
  "sort_key fst (map (\<lambda>n. (f n, n)) xs) = map (\<lambda>n. (f n, n)) (sort_key f xs)"
  by (induction xs) (simp_all add: insort_key_pair)

lemma insort_key_fst:
  "map fst (insort_key (\<lambda>e. f (fst e)) e es) = insort_key f (fst e) (map fst es)"
  by (induction es) simp_all

lemma sort_key_fst: "map fst (sort_key (\<lambda>e. f (fst e)) es) = sort_key f (map fst es)"
  by (induction es) (simp_all add: insort_key_fst)

lemma load_images_distinct:
  assumes "distinct (map fst zf)"
  shows "set es \<subseteq> set zf \<Longrightarrow> \<forall>e\<in>set es. snd e \<noteq> None \<Longrightarrow>
     load_images zf (map fst es) = Inr (map (the \<circ> snd) es)"
proof (induction es)
  case Nil
  show ?case by simp
next
  case (Cons e es)
  from assms have d: "distinct (map fst (rev zf))" by (simp add: rev_map [symmetric])
  from Cons.prems have m: "(fst e, snd e) \<in> set (rev zf)" by simp
  have "map_of (rev zf) (fst e) = Some (snd e)" by (rule map_of_is_SomeI [OF d m])
  moreover from Cons.prems obtain img where "snd e = Some img" by auto
  moreover from Cons.prems have "load_images zf (map fst es) = Inr (map (the \<circ> snd) es)"
    by (intro Cons.IH) simp_all
  ultimately show ?case by simp
qed

lemma jpeg_files_small_example:
  "jpeg_files [(ascii ''slide10.jpeg'', a), (ascii ''slide2.jpeg'', b)]
     = Inr [(2, ascii ''slide2.jpeg''), (10, ascii ''slide10.jpeg'')]"
  by (simp add: jpeg_files_def namelist_def text_eval_defs)

lemma extract_images_example:
  "extract_images_from_zip example_small_zip = Inr [Image 4 4, Image 11 8]"
  by (simp add: extract_images_from_zip_def example_small_zip_def jpeg_files_def namelist_def
      text_eval_defs)

text \<open>A run on matching counts makes its calls in slide order and succeeds: speech and
  the two tools for the slide with notes, one encoder call for the slide whose notes are
  white space only, and the concatenation.\<close>

lemma generate_video_example_run:
  "generate_video example_environment
     (example_noted_deck\<lparr>slides := take 2 (slides example_noted_deck)\<rparr>) example_small_zip
   = \<lparr>ok = True, message = VideoCompleted 2,
      calls = [TextToSpeech (ascii ''A''), Ffprobe (Audio (ascii ''A'')),
               Ffmpeg (Mux (4, 4) (Some (Audio (ascii ''A'')))),
               Ffmpeg (Mux (10, 8) None), Ffmpeg (Concat 2)],
      video = Some [Clip (4, 4) (Some (Audio (ascii ''A''))), Clip (10, 8) None]\<rparr>"
  by (simp add: generate_video_def extract_images_example extract_speaker_notes_def
      example_noted_deck_def example_environment_def strip_def isspace_def whitespace_def
      newline_def text_to_speech_def create_slide_video_def combine_videos_def even_size_def
      Let_def)

text \<open>An image with a side of 1 is trimmed to 0 and cannot be resized: the call raises
  before any process is started.\<close>

lemma create_slide_video_thin_image:
  "create_slide_video env (Image 1 8) a = (Inl ValueError, [])"
  by (simp add: create_slide_video_def even_size_def)

text \<open>The entry name with 4301 digits passes every test of the scan.\<close>

lemma contains_subset: "contains s p \<Longrightarrow> set p \<subseteq> set s"
proof (induction s)
  case Nil
  then show ?case by simp
next
  case (Cons c s)
  from Cons.prems have "startswith (c # s) p \<or> contains s p" by simp
  then show ?case
  proof
    assume "startswith (c # s) p"
    then have "p = take (length p) (c # s)" by (simp add: startswith_def)
    then have "set p \<subseteq> set (c # s)" by (metis set_take_subset)
    then show ?thesis .
  next
    assume "contains s p"
    then have "set p \<subseteq> set s" by (rule Cons.IH)
    then show ?thesis by auto
  qed
qed

lemma long_digit_name_unfold: "long_digit_name = 49 # replicate 4300 49 @ [46, 106, 112, 103]"
proof -
  have "replicate 4301 (49::nat) = replicate (Suc 4300) 49" by simp
  then show ?thesis by (simp only: long_digit_name_def replicate_Suc) simp
qed

lemma long_digit_name_basename: "basename long_digit_name = long_digit_name"
proof -
  have "\<forall>c\<in>set (rev long_digit_name). c \<noteq> 0x2F"
    by (auto simp add: long_digit_name_def)
  then have "takeWhile (\<lambda>c. c \<noteq> 0x2F) (rev long_digit_name) = rev long_digit_name"
    by (simp only: takeWhile_eq_all_conv)
  then have "basename long_digit_name = rev (rev long_digit_name)"
    by (simp only: basename_def)
  then show ?thesis by simp
qed

lemma isdigit_one: "isdigit 49"
  by (simp add: isdigit_below)

lemma not_isdigit_dot: "\<not> isdigit 46"
  by (simp add: isdigit_below)

lemma long_digit_name_digits: "first_digits long_digit_name = replicate 4301 49"
proof -
  have "dropWhile (\<lambda>c. \<not> isdigit c) long_digit_name = long_digit_name"
    by (simp add: long_digit_name_unfold isdigit_one)
  moreover have "takeWhile isdigit (replicate 4301 49 @ [46, 106, 112, 103])
      = replicate 4301 49 @ takeWhile isdigit [46, 106, 112, 103]"
    by (rule takeWhile_append2) (simp add: isdigit_one)
  ultimately show ?thesis
    by (simp add: first_digits_def long_digit_name_def not_isdigit_dot)
qed

lemma long_digit_name_kept: "is_slide_image long_digit_name"
proof -
  have "\<not> set (ascii ''__MACOSX'') \<subseteq> set long_digit_name"
    by (auto simp add: long_digit_name_def)
  then have 1: "\<not> contains long_digit_name (ascii ''__MACOSX'')"
    using contains_subset by blast
  have 2: "\<not> endswith long_digit_name (ascii ''/'')"
    by (simp add: endswith_def long_digit_name_def)
  have 3: "\<not> startswith long_digit_name (ascii ''.'')"
    by (simp add: startswith_def long_digit_name_unfold)
  have "lower long_digit_name = long_digit_name"
    by (simp add: lower_def lower_char_def long_digit_name_def)
  then have 4: "endswith (lower long_digit_name) (ascii ''.jpg'')"
    by (simp add: endswith_def long_digit_name_def)
  have 5: "\<exists>c\<in>set long_digit_name. isdigit c"
    using isdigit_one by (auto simp add: long_digit_name_unfold)
  from 1 2 3 4 5 show ?thesis
    by (simp add: is_slide_image_def long_digit_name_basename)
qed

text \<open>
  Claim C6, as the code has it. For every archive in which the first run of digits of the
  base name of each entry passing the tests has at most 4300 digits (beyond which the
  conversion to an integer raises), \<open>extract_images_from_zip\<close> loads the entries of
  \<open>jpeg_files\<close> in their order. These are exactly the entry names that are no directory
  entry, no metadata entry, no hidden file, have the extension \<open>.jpeg\<close> or \<open>.jpg\<close> and
  hold a digit in the base name, each paired with the integer value of the first run of
  digits of its base name, in ascending order of that value whatever the order in the
  archive: \<open>slide10.jpeg\<close>, \<open>slide2.jpeg\<close> come out as 2 before 10. When the entry names
  are distinct and the kept entries decode, the images returned are those of the kept
  entries in that order.
\<close>

theorem slide_images_selected_and_ordered:
  assumes "\<forall>name\<in>set (namelist zf). is_slide_image name \<longrightarrow>
     length (first_digits (basename name)) \<le> int_max_str_digits"
  shows "\<exists>files. jpeg_files zf = Inr files
     \<and> map snd files = sort_key slide_number (filter is_slide_image (namelist zf))
     \<and> mset (map snd files) = mset (filter is_slide_image (namelist zf))
     \<and> map fst files = map slide_number (map snd files)
     \<and> sorted (map fst files)
     \<and> extract_images_from_zip zf = load_images zf (map snd files)
     \<and> (distinct (namelist zf) \<and> (\<forall>e\<in>set zf. is_slide_image (fst e) \<longrightarrow> snd e \<noteq> None) \<longrightarrow>
          extract_images_from_zip zf
            = Inr (map (the \<circ> snd)
                (sort_key (\<lambda>e. slide_number (fst e)) (filter (\<lambda>e. is_slide_image (fst e)) zf))))
     \<and> jpeg_files [(ascii ''slide10.jpeg'', a), (ascii ''slide2.jpeg'', b)]
         = Inr [(2, ascii ''slide2.jpeg''), (10, ascii ''slide10.jpeg'')]"
proof -
  let ?kept = "sort_key slide_number (filter is_slide_image (namelist zf))"
  let ?files = "map (\<lambda>n. (slide_number n, n)) ?kept"
  let ?entries = "sort_key (\<lambda>e. slide_number (fst e)) (filter (\<lambda>e. is_slide_image (fst e)) zf)"
  have f: "jpeg_files zf = Inr ?files"
    by (simp add: jpeg_files_def scan_names_filter [OF assms] sort_key_pair)
  have names: "map snd ?files = ?kept"
    by (simp add: comp_def)
  have keys: "map fst ?files = map slide_number ?kept"
    by (simp add: comp_def)
  have 1: "mset (map snd ?files) = mset (filter is_slide_image (namelist zf))"
    by (simp only: names mset_sort)
  have 2: "map fst ?files = map slide_number (map snd ?files)"
    by (simp only: names keys)
  have 3: "sorted (map fst ?files)"
    by (simp only: keys sorted_sort_key)
  have 4: "extract_images_from_zip zf = load_images zf (map snd ?files)"
    by (simp add: extract_images_from_zip_def f)
  have 5: "distinct (namelist zf) \<and> (\<forall>e\<in>set zf. is_slide_image (fst e) \<longrightarrow> snd e \<noteq> None) \<longrightarrow>
      extract_images_from_zip zf = Inr (map (the \<circ> snd) ?entries)"
  proof
    assume h: "distinct (namelist zf) \<and> (\<forall>e\<in>set zf. is_slide_image (fst e) \<longrightarrow> snd e \<noteq> None)"
    have "filter is_slide_image (map fst zf) = map fst (filter (\<lambda>e. is_slide_image (fst e)) zf)"
      by (simp add: filter_map comp_def)
    then have k: "?kept = map fst ?entries"
      by (simp only: namelist_def sort_key_fst)
    have d: "distinct (map fst zf)" using h by (simp add: namelist_def)
    have sub: "set ?entries \<subseteq> set zf" by auto
    have dec: "\<forall>e\<in>set ?entries. snd e \<noteq> None" using h by auto
    have "load_images zf (map fst ?entries) = Inr (map (the \<circ> snd) ?entries)"
      using sub dec by (rule load_images_distinct [OF d])
    moreover have "extract_images_from_zip zf = load_images zf ?kept"
      by (simp only: 4 names)
    ultimately show "extract_images_from_zip zf = Inr (map (the \<circ> snd) ?entries)"
      by (simp only: k)
  qed
  note 6 = jpeg_files_small_example [of a b]
  from f names 1 2 3 4 5 6 show ?thesis by (intro exI [of _ ?files] conjI)
qed

theorem slide_images_selected_and_ordered_witness:
  "jpeg_files example_zip
     = Inr [(1, [0x30B9, 0x30E9, 0x30A4, 0x30C9, 0xFF11] @ ascii ''.jpeg''),
            (2, ascii ''slides/slide2.JPG''), (10, ascii ''slides/slide10.jpeg'')]
   \<and> extract_images_from_zip example_zip = Inr [Image 3 3, Image 4 4, Image 11 8]
   \<and> \<not> is_slide_image (ascii ''__MACOSX/slides/slide3.jpeg'')
   \<and> \<not> startswith (basename (ascii ''__MACOSX/slides/slide3.jpeg'')) (ascii ''.'')"
proof -
  let ?kept = "[(1, [0x30B9, 0x30E9, 0x30A4, 0x30C9, 0xFF11] @ ascii ''.jpeg''),
            (2, ascii ''slides/slide2.JPG''), (10, ascii ''slides/slide10.jpeg'')]"
  have judged: "map is_slide_image (map fst example_zip)
      = [False, True, False, False, False, True, False, False, True]"
    by (simp add: example_zip_def is_slide_image_def text_eval_defs)
  have short: "\<forall>name\<in>set (namelist example_zip). is_slide_image name \<longrightarrow>
      length (first_digits (basename name)) \<le> int_max_str_digits"
    by (simp add: namelist_def example_zip_def text_eval_defs)
  from slide_images_selected_and_ordered [OF short, of None None]
  obtain files where f: "jpeg_files example_zip = Inr files"
    and n: "map snd files = sort_key slide_number (filter is_slide_image (namelist example_zip))"
    and k: "map fst files = map slide_number (map snd files)"
    and x: "extract_images_from_zip example_zip = load_images example_zip (map snd files)"
    by blast
  have "filter is_slide_image (namelist example_zip)
      = [ascii ''slides/slide10.jpeg'', ascii ''slides/slide2.JPG'',
         [0x30B9, 0x30E9, 0x30A4, 0x30C9, 0xFF11] @ ascii ''.jpeg'']"
    using judged by (simp add: namelist_def example_zip_def)
  then have n': "map snd files
      = [[0x30B9, 0x30E9, 0x30A4, 0x30C9, 0xFF11] @ ascii ''.jpeg'',
         ascii ''slides/slide2.JPG'', ascii ''slides/slide10.jpeg'']"
    by (simp add: n slide_number_def text_eval_defs)
  then have k': "map fst files = [1, 2, 10]"
    by (simp add: k slide_number_def text_eval_defs)
  have "zip (map fst files) (map snd files) = files" by (rule zip_map_fst_snd)
  then have "zip [1, 2, 10]
      [[0x30B9, 0x30E9, 0x30A4, 0x30C9, 0xFF11] @ ascii ''.jpeg'',
       ascii ''slides/slide2.JPG'', ascii ''slides/slide10.jpeg''] = files"
    by (simp only: n' k')
  then have files: "files = ?kept" by simp
  have 1: "jpeg_files example_zip = Inr ?kept" by (simp only: f files)
  have 2: "extract_images_from_zip example_zip = Inr [Image 3 3, Image 4 4, Image 11 8]"
    by (simp add: x files) (simp add: example_zip_def)
  have 3: "\<not> is_slide_image (ascii ''__MACOSX/slides/slide3.jpeg'')"
    using judged by (simp add: example_zip_def)
  have 4: "\<not> startswith (basename (ascii ''__MACOSX/slides/slide3.jpeg'')) (ascii ''.'')"
    by (simp add: startswith_def basename_def)
  from 1 2 3 4 show ?thesis by (intro conjI)
qed

text \<open>
  An entry name of 4301 digits and the extension \<open>.jpg\<close> passes every test, yet the scan
  raises at it: nothing is kept and no image is returned.
\<close>

theorem slide_images_selected_and_ordered_counterexample:
  "is_slide_image long_digit_name
   \<and> jpeg_files [(long_digit_name, Some (Image 2 2))] = Inl ValueError
   \<and> extract_images_from_zip [(long_digit_name, Some (Image 2 2))] = Inl ValueError"
proof -
  have "int_max_str_digits < length (first_digits (basename long_digit_name))"
    by (simp add: long_digit_name_basename long_digit_name_digits int_max_str_digits_def)
  with long_digit_name_kept have "scan_names [long_digit_name] = Inl ValueError"
    by (rule scan_names_too_long)
  then have "jpeg_files [(long_digit_name, Some (Image 2 2))] = Inl ValueError"
    by (simp add: jpeg_files_def namelist_def del: scan_names.simps)
  moreover from this
  have "extract_images_from_zip [(long_digit_name, Some (Image 2 2))] = Inl ValueError"
    by (simp add: extract_images_from_zip_def)
  ultimately show ?thesis using long_digit_name_kept by (intro conjI)
qed

text \<open>
  Claim C3. When the archive yields no image, or the number of speaker-notes entries of
  the deck differs from the number of images, \<open>generate_video\<close> returns failure with the
  message of that case, has made no call to the speech service and started no
  \<open>ffprobe\<close> or \<open>ffmpeg\<close> process, and has produced no video.
\<close>

theorem count_mismatch_fails_fast:
  assumes "extract_images_from_zip zf = Inr images"
    and "length (extract_speaker_notes prs) \<noteq> length images \<or> length images = 0"
  shows "\<not> ok (generate_video env prs zf)
     \<and> message (generate_video env prs zf)
         = (if length images = 0 then NoImagesFound
            else CountMismatch (length (extract_speaker_notes prs)) (length images))
     \<and> calls (generate_video env prs zf) = []
     \<and> video (generate_video env prs zf) = None"
proof (cases "length images = 0")
  case True
  then show ?thesis
    by (simp add: generate_video_def assms(1) Let_def)
next
  case False
  with assms(2) have "length (extract_speaker_notes prs) \<noteq> length images" by simp
  with False show ?thesis
    by (simp add: generate_video_def assms(1) Let_def)
qed

theorem count_mismatch_fails_fast_witness:
  "length (extract_speaker_notes example_noted_deck) = 3
   \<and> extract_images_from_zip example_small_zip = Inr [Image 4 4, Image 11 8]
   \<and> \<not> ok (generate_video example_environment example_noted_deck example_small_zip)
   \<and> message (generate_video example_environment example_noted_deck example_small_zip)
       = CountMismatch 3 2
   \<and> calls (generate_video example_environment example_noted_deck example_small_zip) = []
   \<and> video (generate_video example_environment example_noted_deck example_small_zip) = None"
proof -
  have n: "length (extract_speaker_notes example_noted_deck) = 3"
    by (simp add: extract_speaker_notes_def example_noted_deck_def)
  from count_mismatch_fails_fast [of example_small_zip "[Image 4 4, Image 11 8]"
      example_noted_deck example_environment]
  show ?thesis
    by (simp add: n extract_images_example)
qed

section \<open>Properties of the agenda text\<close>

lemma isdigit_digit_char: "d < 10 \<Longrightarrow> isdigit (digit_char d)"
  by (simp add: digit_char_def isdigit_below)

lemma digit_val_digit_char: "d < 10 \<Longrightarrow> digit_val (digit_char d) = d"
  by (simp add: digit_char_def digit_val_below)

lemma str_nat_range: "c \<in> set (str_nat n) \<Longrightarrow> 48 \<le> c \<and> c < 58"
proof (induction n rule: str_nat.induct)
  case (1 n)
  show ?case
  proof (cases "n < 10")
    case True
    with "1.prems" show ?thesis
      by (simp add: str_nat.simps [of n] digit_char_def)
  next
    case False
    then have "n mod 10 < 10" by simp
    with False "1.prems" "1.IH" show ?thesis
      by (auto simp add: str_nat.simps [of n] digit_char_def)
  qed
qed

lemma str_nat_digits: "c \<in> set (str_nat n) \<Longrightarrow> isdigit c"
  using str_nat_range [of c n] by (simp add: isdigit_below)

lemma str_nat_nonempty: "str_nat n \<noteq> []"
  by (simp add: str_nat.simps [of n])

lemma int_of_digits_snoc: "int_of_digits (s @ [c]) = 10 * int_of_digits s + digit_val c"
  by (simp add: int_of_digits_def)

lemma int_of_digits_str_nat: "int_of_digits (str_nat n) = n"
proof (induction n rule: str_nat.induct)
  case (1 n)
  show ?case
  proof (cases "n < 10")
    case True
    then show ?thesis
      by (simp add: str_nat.simps [of n] int_of_digits_def digit_val_digit_char)
  next
    case False
    then have "int_of_digits (str_nat n)
        = 10 * int_of_digits (str_nat (n div 10)) + digit_val (digit_char (n mod 10))"
      by (simp add: str_nat.simps [of n] int_of_digits_snoc)
    also have "\<dots> = 10 * (n div 10) + n mod 10"
      using False by (simp add: "1.IH" digit_val_digit_char)
    finally show ?thesis by simp
  qed
qed

lemma dropWhile_numbered: "dropWhile isdigit (numbered i item) = ascii ''. '' @ item"
proof -
  have "dropWhile isdigit (str_nat (i + 1) @ (ascii ''. '' @ item))
      = dropWhile isdigit (ascii ''. '' @ item)"
    by (rule dropWhile_append2) (rule str_nat_digits)
  then show ?thesis by (simp add: numbered_def not_isdigit_dot)
qed

lemma takeWhile_numbered: "takeWhile isdigit (numbered i item) = str_nat (i + 1)"
proof -
  have "takeWhile isdigit (str_nat (i + 1) @ (ascii ''. '' @ item))
      = str_nat (i + 1) @ takeWhile isdigit (ascii ''. '' @ item)"
    by (rule takeWhile_append2) (rule str_nat_digits)
  then show ?thesis by (simp add: numbered_def not_isdigit_dot)
qed

lemma strip_numbering_numbered: "strip_numbering (numbered i item) = item"
  by (simp add: strip_numbering_def dropWhile_numbered startswith_def)

lemma line_number_numbered: "line_number (numbered i item) = i + 1"
  by (simp add: line_number_def takeWhile_numbered int_of_digits_str_nat)

lemma newline_numbered: "newline \<notin> set item \<Longrightarrow> newline \<notin> set (numbered i item)"
  using str_nat_range [of newline "i + 1"]
  by (auto simp add: numbered_def newline_def)

lemma numbered_not_escaped:
  "\<forall>c\<in>set item. \<not> is_escaped c \<Longrightarrow> c \<in> set (numbered i item) \<Longrightarrow> \<not> is_escaped c"
  using str_nat_range [of c "i + 1"]
  by (auto simp add: numbered_def is_escaped_def)

lemma split_on_nonempty: "split_on c s \<noteq> []"
  by (induction s) (auto split: list.splits)

lemma split_on_single: "c \<notin> set l \<Longrightarrow> split_on c l = [l]"
  by (induction l) auto

lemma split_on_append: "c \<notin> set l \<Longrightarrow> split_on c (l @ c # rest) = l # split_on c rest"
  by (induction l) auto

lemma split_on_join:
  "ls \<noteq> [] \<Longrightarrow> \<forall>l\<in>set ls. c \<notin> set l \<Longrightarrow> split_on c (py_join [c] ls) = ls"
proof (induction "[c]" ls rule: py_join.induct)
  case 1
  then show ?case by simp
next
  case (2 x)
  then show ?case by (simp add: split_on_single)
next
  case (3 x y ys)
  then show ?case by (simp add: split_on_append)
qed

lemma py_join_empty: "\<forall>l\<in>set ls. l \<noteq> [] \<Longrightarrow> py_join sep ls = [] \<longleftrightarrow> ls = []"
  by (induction sep ls rule: py_join.induct) auto

lemma set_py_join: "c \<in> set (py_join sep ls) \<Longrightarrow> c \<in> set sep \<or> (\<exists>l\<in>set ls. c \<in> set l)"
  by (induction sep ls rule: py_join.induct) auto

lemma numbered_nonempty: "numbered i item \<noteq> []"
  by (simp add: numbered_def str_nat_nonempty)

lemma agenda_lines_reparsed:
  "map strip_numbering (map (\<lambda>(i, item). numbered i item) (enumerate k ag)) = ag"
  by (induction ag arbitrary: k) (simp_all add: strip_numbering_numbered)

lemma agenda_lines_numbers:
  "map line_number (map (\<lambda>(i, item). numbered i item) (enumerate k ag))
     = [Suc k..<Suc (k + length ag)]"
proof -
  have "map line_number (map (\<lambda>(i, item). numbered i item) (enumerate k ag))
      = map Suc (map fst (enumerate k ag))"
    unfolding map_map by (rule map_cong) (auto simp add: line_number_numbered)
  also have "\<dots> = map Suc [k..<k + length ag]"
    by (simp only: map_fst_enumerate)
  also have "\<dots> = [Suc k..<Suc (k + length ag)]"
    by (rule map_Suc_upt)
  finally show ?thesis .
qed

lemma str_nat_small:
  "str_nat (Suc 0) = ascii ''1''" "str_nat (Suc (Suc 0)) = ascii ''2''"
  "str_nat 1 = ascii ''1''" "str_nat 2 = ascii ''2''" "str_nat 3 = ascii ''3''"
  "str_nat (Suc (Suc (Suc 0))) = ascii ''3''"
  by (simp_all add: str_nat.simps digit_char_def)

text \<open>The text of the agenda lines is stored as it is when the entries hold no escaped
  control character.\<close>

lemma agenda_text_not_escaped:
  assumes "\<forall>item\<in>set ag. \<forall>c\<in>set item. \<not> is_escaped c"
  shows "\<forall>c\<in>set (agenda_text ag). \<not> is_escaped c"
proof
  fix c
  assume "c \<in> set (agenda_text ag)"
  then have "c \<in> set [newline]
      \<or> (\<exists>l\<in>set (map (\<lambda>(i, item). numbered i item) (enumerate 0 ag)). c \<in> set l)"
    unfolding agenda_text_def by (rule set_py_join)
  then show "\<not> is_escaped c"
  proof
    assume "c \<in> set [newline]"
    then show ?thesis using newline_not_escaped by simp
  next
    assume "\<exists>l\<in>set (map (\<lambda>(i, item). numbered i item) (enumerate 0 ag)). c \<in> set l"
    then obtain i item where m: "(i, item) \<in> set (enumerate 0 ag)"
      and c: "c \<in> set (numbered i item)"
      by auto
    from m have "item \<in> set ag" by (auto simp add: in_set_enumerate_eq)
    with assms have "\<forall>c\<in>set item. \<not> is_escaped c" by simp
    then show ?thesis using c by (rule numbered_not_escaped)
  qed
qed

lemma agenda_text_round_trip:
  assumes "\<forall>item\<in>set ag. newline \<notin> set item"
  shows "spec_reparse_agenda (agenda_text ag) = ag
     \<and> spec_reparse_numbers (agenda_text ag) = [1..<Suc (length ag)]"
proof (cases "ag = []")
  case True
  then show ?thesis
    by (simp add: agenda_text_def spec_reparse_agenda_def spec_reparse_numbers_def)
next
  case False
  let ?lines = "map (\<lambda>(i, item). numbered i item) (enumerate 0 ag)"
  have ne: "?lines \<noteq> []" using False by (cases ag) simp_all
  have "\<forall>l\<in>set ?lines. l \<noteq> []"
    by (auto simp add: numbered_nonempty)
  with ne have body: "agenda_text ag \<noteq> []"
    by (simp add: agenda_text_def py_join_empty)
  have "\<forall>l\<in>set ?lines. newline \<notin> set l"
  proof
    fix l
    assume "l \<in> set ?lines"
    then obtain i item where l: "l = numbered i item" and "(i, item) \<in> set (enumerate 0 ag)"
      by auto
    then have "item \<in> set ag" by (auto simp add: in_set_enumerate_eq)
    with assms have "newline \<notin> set item" by simp
    then show "newline \<notin> set l" unfolding l by (rule newline_numbered)
  qed
  with ne have split: "split_on newline (agenda_text ag) = ?lines"
    unfolding agenda_text_def by (intro split_on_join)
  have "spec_reparse_agenda (agenda_text ag) = ag"
    using body by (simp only: spec_reparse_agenda_def split if_False agenda_lines_reparsed)
  moreover have "spec_reparse_numbers (agenda_text ag) = [1..<Suc (length ag)]"
    using body agenda_lines_numbers [of 0 ag]
    by (simp only: spec_reparse_numbers_def split if_False) simp
  ultimately show ?thesis by simp
qed

lemma fill_header_body_body:
  "p \<in> set (placeholders (fill_header_body h b s)) \<Longrightarrow> ph_idx p = 14 \<Longrightarrow>
   ph_text p = stored_text b"
  by (auto simp add: fill_header_body_def split: if_splits)

text \<open>
  Claim C8, as the code has it. For every agenda list whose entries hold neither a line
  break nor a control character that the document library escapes (the code points 0 to 8
  and 12 to 31), the body text of the agenda slide of the deck is the text of the numbered
  lines, and reading it back, one line per entry with the leading numbering stripped,
  gives the agenda list in its order; the numbers in front of the lines are 1 to N.
\<close>

theorem agenda_round_trip:
  assumes "slide_masters prs = master # ms" and "3 \<le> length master"
    and "\<forall>item\<in>set (agenda content). \<forall>c\<in>set item. c \<noteq> newline \<and> \<not> is_escaped c"
  shows "\<exists>deck. create_slides_from_json prs content = Inr deck
     \<and> (\<forall>p\<in>set (placeholders (slides deck ! Suc (length (slides prs)))). ph_idx p = 14 \<longrightarrow>
          ph_text p = agenda_text (agenda content)
          \<and> spec_reparse_agenda (ph_text p) = agenda content
          \<and> spec_reparse_numbers (ph_text p) = [1..<Suc (length (agenda content))])"
proof -
  let ?sa = "fill_header_body agenda_header (agenda_text (agenda content))
     (new_slide (master ! 0))"
  from create_slides_from_json_slides [OF assms(1,2), of content]
  obtain deck where d: "create_slides_from_json prs content = Inr deck"
    and s: "slides deck = slides prs
         @ [fill_title (title content) (new_slide (master ! 1)), ?sa]
         @ concat (map (item_slides (master ! 0) (main content)) (enumerate 0 (agenda content)))
         @ [new_slide (master ! 2)]"
    by blast
  have second: "slides deck ! Suc (length (slides prs)) = ?sa"
    by (simp add: s nth_append)
  from assms(3) have "\<forall>item\<in>set (agenda content). \<forall>c\<in>set item. \<not> is_escaped c" by simp
  then have "\<forall>c\<in>set (agenda_text (agenda content)). \<not> is_escaped c"
    by (rule agenda_text_not_escaped)
  then have stored: "stored_text (agenda_text (agenda content)) = agenda_text (agenda content)"
    by (rule stored_text_clean)
  from assms(3) have "\<forall>item\<in>set (agenda content). newline \<notin> set item" by auto
  note rt = agenda_text_round_trip [OF this]
  have "ph_text p = agenda_text (agenda content)
          \<and> spec_reparse_agenda (ph_text p) = agenda content
          \<and> spec_reparse_numbers (ph_text p) = [1..<Suc (length (agenda content))]"
    if "p \<in> set (placeholders (slides deck ! Suc (length (slides prs))))" and "ph_idx p = 14"
    for p
  proof -
    from that have "ph_text p = stored_text (agenda_text (agenda content))"
      unfolding second by (rule fill_header_body_body)
    then have "ph_text p = agenda_text (agenda content)" by (simp only: stored)
    with rt show ?thesis by simp
  qed
  with d show ?thesis by blast
qed

theorem agenda_round_trip_witness:
  "\<exists>deck. create_slides_from_json example_template example_lecture = Inr deck
     \<and> (\<exists>p\<in>set (placeholders (slides deck ! 1)). ph_idx p = 14
          \<and> ph_text p = agenda_text [ascii ''a'', ascii ''b'', ascii ''c'']
          \<and> spec_reparse_agenda (ph_text p) = [ascii ''a'', ascii ''b'', ascii ''c'']
          \<and> spec_reparse_numbers (ph_text p) = [1, 2, 3])"
proof -
  have clean: "\<forall>item\<in>set (agenda example_lecture). \<forall>c\<in>set item.
      c \<noteq> newline \<and> \<not> is_escaped c"
    by (simp add: example_lecture_def newline_def is_escaped_def)
  have m: "slide_masters example_template = example_layouts # []"
    by (simp add: example_template_def)
  have l: "3 \<le> length example_layouts"
    by (simp add: example_layouts_def)
  from agenda_round_trip [OF m l clean]
  obtain deck where d: "create_slides_from_json example_template example_lecture = Inr deck"
    and r: "\<forall>p\<in>set (placeholders (slides deck ! Suc (length (slides example_template)))).
       ph_idx p = 14 \<longrightarrow>
          ph_text p = agenda_text (agenda example_lecture)
          \<and> spec_reparse_agenda (ph_text p) = agenda example_lecture
          \<and> spec_reparse_numbers (ph_text p) = [1..<Suc (length (agenda example_lecture))]"
    by blast
  from create_slides_from_json_slides [OF m l, of example_lecture] d
  have "slides deck ! 1 = fill_header_body agenda_header (agenda_text (agenda example_lecture))
      (new_slide (example_layouts ! 0))"
    by (auto simp add: example_template_def)
  then have "\<exists>p\<in>set (placeholders (slides deck ! 1)). ph_idx p = 14"
    by (simp add: fill_header_body_def new_slide_def example_layouts_def)
  then obtain p where p: "p \<in> set (placeholders (slides deck ! 1))" and i: "ph_idx p = 14"
    by blast
  have one: "Suc (length (slides example_template)) = 1"
    by (simp add: example_template_def)
  from r p i have all: "ph_text p = agenda_text (agenda example_lecture)
          \<and> spec_reparse_agenda (ph_text p) = agenda example_lecture
          \<and> spec_reparse_numbers (ph_text p) = [1..<Suc (length (agenda example_lecture))]"
    unfolding one by blast
  have ag: "agenda example_lecture = [ascii ''a'', ascii ''b'', ascii ''c'']"
    by (simp add: example_lecture_def)
  have up: "[1..<Suc (length (agenda example_lecture))] = [1, 2, 3]"
    by (simp add: ag upt_rec)
  from all [THEN conjunct1]
  have 1: "ph_text p = agenda_text [ascii ''a'', ascii ''b'', ascii ''c'']"
    by (simp only: ag)
  from all [THEN conjunct2, THEN conjunct1]
  have 2: "spec_reparse_agenda (ph_text p) = [ascii ''a'', ascii ''b'', ascii ''c'']"
    by (simp only: ag)
  from all [THEN conjunct2, THEN conjunct2]
  have 3: "spec_reparse_numbers (ph_text p) = [1, 2, 3]"
    by (simp only: up)
  from i 1 2 3 have "ph_idx p = 14
          \<and> ph_text p = agenda_text [ascii ''a'', ascii ''b'', ascii ''c'']
          \<and> spec_reparse_agenda (ph_text p) = [ascii ''a'', ascii ''b'', ascii ''c'']
          \<and> spec_reparse_numbers (ph_text p) = [1, 2, 3]"
    by (intro conjI)
  with p have "\<exists>p\<in>set (placeholders (slides deck ! 1)). ph_idx p = 14
          \<and> ph_text p = agenda_text [ascii ''a'', ascii ''b'', ascii ''c'']
          \<and> spec_reparse_agenda (ph_text p) = [ascii ''a'', ascii ''b'', ascii ''c'']
          \<and> spec_reparse_numbers (ph_text p) = [1, 2, 3]"
    by (rule bexI [rotated])
  with d show ?thesis by (intro exI [of _ deck] conjI)
qed

text \<open>
  An entry that holds a line break is not read back: the body text of the agenda slide
  has two lines. No parser can do better, since the agenda of that one entry and an
  agenda of two entries are rendered to the same text.
\<close>

theorem agenda_round_trip_counterexample:
  "ph_idx (placeholders (slides (projr (create_slides_from_json example_template
       (example_lecture\<lparr>agenda := [ascii ''a'' @ [newline] @ ascii ''2. b'']\<rparr>))) ! 1) ! 1) = 14
   \<and> spec_reparse_agenda
       (ph_text (placeholders (slides (projr (create_slides_from_json example_template
          (example_lecture\<lparr>agenda := [ascii ''a'' @ [newline] @ ascii ''2. b'']\<rparr>))) ! 1) ! 1))
      = [ascii ''a'', ascii ''b'']
   \<and> [ascii ''a'', ascii ''b''] \<noteq> [ascii ''a'' @ [newline] @ ascii ''2. b'']
   \<and> agenda_text [ascii ''a'' @ [newline] @ ascii ''2. b'']
       = agenda_text [ascii ''a'', ascii ''b'']"
  by (simp add: create_slides_from_json_def example_template_def example_layouts_def
      example_lecture_def Let_def add_slide_def fill_header_body_def new_slide_def
      agenda_text_def numbered_def str_nat_small spec_reparse_agenda_def newline_def
      stored_text_def escape_char_def is_escaped_def strip_numbering_def startswith_def
      isdigit_below)

end
